theory Spec2Isabelle
  imports Complex_Main "HOL-Library.AList"
begin

section \<open>The API ingestor of backup.py\<close>

subsection \<open>Values\<close>

text \<open>
  What \<open>response.json()\<close> can return, and what a parameter dictionary can hold.
  A Python \<open>dict\<close> with string keys is an association list in insertion order whose
  keys are distinct; a number is an \<open>int\<close> or a \<open>float\<close>, the latter idealised as a
  rational.
\<close>

datatype json =
    JNull
  | JBool bool
  | JInt int
  | JFloat rat
  | JStr string
  | JArr "json list"
  | JObj "(string \<times> json) list"

type_synonym pdict = "(string \<times> json) list"

text \<open>Python's truth value of an object: \<open>bool(v)\<close>.\<close>

fun truthy :: "json \<Rightarrow> bool" where
  "truthy JNull = False"
| "truthy (JBool b) = b"
| "truthy (JInt n) = (n \<noteq> 0)"
| "truthy (JFloat r) = (r \<noteq> 0)"
| "truthy (JStr s) = (s \<noteq> [])"
| "truthy (JArr xs) = (xs \<noteq> [])"
| "truthy (JObj d) = (d \<noteq> [])"

datatype error =
    Failed_to_fetch string int
  | TypeError_not_iterable
  | OverflowError_int_too_large
  | ValueError_sleep_negative
  | OverflowError_sleep_too_long
  | ValueError_range_step_zero

text \<open>
  \<open>Failed_to_fetch url n\<close> is the exception of line 62, whose message is
  \<open>Failed to fetch data from {url} after {n} retries\<close>. The others are raised by the
  interpreter: \<open>list.extend\<close> on an object that is not iterable, the product of a float
  and an integer too large to be converted to a float, \<open>time.sleep\<close> on a negative length
  and on a length too long for it, \<open>range\<close> with step zero.
\<close>

text \<open>
  Iterating an object, as \<open>list.extend\<close> does: a list gives its elements, a dict its
  keys, a string its characters as strings of length one.
\<close>

fun iterate :: "json \<Rightarrow> error + json list" where
  "iterate (JArr xs) = Inr xs"
| "iterate (JObj d) = Inr (map (\<lambda>kv. JStr (fst kv)) d)"
| "iterate (JStr s) = Inr (map (\<lambda>c. JStr [c]) s)"
| "iterate JNull = Inl TypeError_not_iterable"
| "iterate (JBool b) = Inl TypeError_not_iterable"
| "iterate (JInt n) = Inl TypeError_not_iterable"
| "iterate (JFloat r) = Inl TypeError_not_iterable"

text \<open>\<open>len(v)\<close>, on the objects that have a length; it is only called after \<open>extend\<close>
  has succeeded, so the other objects never reach it.\<close>

fun len :: "json \<Rightarrow> int" where
  "len (JArr xs) = int (length xs)"
| "len (JObj d) = int (length d)"
| "len (JStr s) = int (length s)"
| "len JNull = 0"
| "len (JBool b) = 0"
| "len (JInt n) = 0"
| "len (JFloat r) = 0"

subsection \<open>The outside world\<close>

text \<open>
  What \<open>requests.get\<close> does on one attempt: either a response arrives, or a
  \<open>requests.RequestException\<close> is raised, with its text. A response has its status code,
  its text, and what \<open>response.json()\<close> gives on it: \<open>Inr\<close> the parsed body, or \<open>Inl\<close> the
  text of the \<open>JSONDecodeError\<close> it raises when the text is not JSON. That error is a
  \<open>requests.RequestException\<close> (since requests 2.27), so the \<open>except\<close> clause of the
  \<open>try\<close> block catches it.
\<close>

datatype attempt =
    Response int string "string + json"
  | RequestException string

datatype log_record =
    Warning_request_failed int string
  | Warning_request_exception string
  | Info_retrying rat
  | Info_fetching_page int string
  | Info_fetching_incremental string "string option"

text \<open>
  What the program does to the world, in the order it does it: a GET request (URL,
  query parameters, timeout) with the outcome it had, a log line, a sleep.
\<close>

datatype event =
    Http_get string "pdict option" int attempt
  | Log log_record
  | Sleep rat

text \<open>
  The server answers a request from its URL, its parameters and the number of requests
  issued before it.
\<close>

type_synonym server = "string \<Rightarrow> pdict option \<Rightarrow> nat \<Rightarrow> attempt"

text \<open>
  The first three fields are the attributes of the ingestor; a float is idealised as a
  rational, so \<open>backoff_factor\<close> is a finite number, and a float as its annotation says.
  \<open>sleep_max\<close> is not an attribute: it is the longest length, in seconds, that \<open>time.sleep\<close>
  of the platform accepts (it keeps the length in a machine integer and raises
  \<open>OverflowError\<close> beyond). The run reads it as it reads the attributes and never changes
  it, so it is carried with them.
\<close>

record config =
  base_url :: string
  max_retries :: int
  backoff_factor :: rat
  sleep_max :: rat

text \<open>
  The store holds the dictionaries: \<open>heap s a\<close> is the dictionary at address \<open>a\<close>, and
  every address from \<open>next_addr s\<close> on is free. \<open>events s\<close> is the trace so far and
  \<open>issued s\<close> the number of requests sent so far.
\<close>

record state =
  heap :: "nat \<Rightarrow> pdict"
  next_addr :: nat
  events :: "event list"
  issued :: nat

definition emit :: "event \<Rightarrow> state \<Rightarrow> state" where
  "emit e s = s\<lparr>events := events s @ [e]\<rparr>"

definition logging :: "log_record \<Rightarrow> state \<Rightarrow> state" where
  "logging r s = emit (Log r) s"

text \<open>\<open>requests.get(url, params=params, timeout=10)\<close>: the parameters are read from
  the store, not written.\<close>

definition requests_get :: "server \<Rightarrow> string \<Rightarrow> nat option \<Rightarrow> state \<Rightarrow> state \<times> attempt" where
  "requests_get srv url params s =
     (let p = map_option (heap s) params;
          a = srv url p (issued s)
      in (emit (Http_get url p 10 a) (s\<lparr>issued := issued s + 1\<rparr>), a))"

text \<open>
  \<open>time.sleep(t)\<close> first converts \<open>t\<close> to the machine integer that holds the length,
  which raises \<open>OverflowError\<close> when the magnitude of \<open>t\<close> is more than the platform
  accepts, also for a negative \<open>t\<close>; it then raises \<open>ValueError\<close> when \<open>t\<close> is negative;
  otherwise it sleeps.
\<close>

definition time_sleep :: "rat \<Rightarrow> rat \<Rightarrow> state \<Rightarrow> state \<times> (error + unit)" where
  "time_sleep longest t s =
     (if longest < \<bar>t\<bar> then (s, Inl OverflowError_sleep_too_long)
      else if t < 0 then (s, Inl ValueError_sleep_negative)
      else (emit (Sleep t) s, Inr ()))"

text \<open>
  \<open>f * (2 ** e)\<close> for a float \<open>f\<close> and an exponent \<open>e\<close> that is not negative. The integer
  \<open>2 ** e\<close> is converted to a float first, which raises \<open>OverflowError\<close> from \<open>2 ** 1024\<close>
  on. Below that the product of a float and a power of two is exact, unless it is too
  large for a float; it is then infinite, and \<open>time.sleep\<close> rejects it as it rejects every
  length above \<open>sleep_max\<close>.
\<close>

definition float_times_pow2 :: "rat \<Rightarrow> nat \<Rightarrow> error + rat" where
  "float_times_pow2 f e = (if 1024 \<le> e then Inl OverflowError_int_too_large else Inr (f * 2 ^ e))"

text \<open>A new dictionary object: \<open>{}\<close> and \<open>d.copy()\<close>.\<close>

definition new_dict :: "pdict \<Rightarrow> state \<Rightarrow> state \<times> nat" where
  "new_dict d s =
     (s\<lparr>heap := (heap s)(next_addr s := d), next_addr := next_addr s + 1\<rparr>, next_addr s)"

definition dict_copy :: "nat \<Rightarrow> state \<Rightarrow> state \<times> nat" where
  "dict_copy a s = new_dict (heap s a) s"

text \<open>\<open>d[k] = v\<close> in place: an existing key keeps its position, a new one goes last.\<close>

definition dict_set :: "nat \<Rightarrow> string \<Rightarrow> json \<Rightarrow> state \<Rightarrow> state" where
  "dict_set a k v s = s\<lparr>heap := (heap s)(a := AList.update k v (heap s a))\<rparr>"

text \<open>\<open>params.copy() if params else {}\<close>: \<open>None\<close> and the empty dictionary are false.\<close>

definition copy_or_empty :: "nat option \<Rightarrow> state \<Rightarrow> state \<times> nat" where
  "copy_or_empty params s =
     (case params of
        None \<Rightarrow> new_dict [] s
      | Some a \<Rightarrow> if heap s a \<noteq> [] then dict_copy a s else new_dict [] s)"

subsection \<open>\<open>_make_request\<close>\<close>

text \<open>
  The \<open>try\<close> block of one attempt: \<open>Some body\<close> when it returns the parsed body of a
  response with status code 200, \<open>None\<close> when it falls through after its warning: the
  status code was another one, or an exception was caught, raised by \<open>requests.get\<close> or by
  \<open>response.json()\<close>.
\<close>

definition try_get :: "server \<Rightarrow> string \<Rightarrow> nat option \<Rightarrow> state \<Rightarrow> state \<times> json option" where
  "try_get srv url params s =
     (case requests_get srv url params s of
        (s1, Response status_code text parsed) \<Rightarrow>
          if status_code = 200 then
            (case parsed of
               Inr body \<Rightarrow> (s1, Some body)
             | Inl e \<Rightarrow> (logging (Warning_request_exception e) s1, None))
          else (logging (Warning_request_failed status_code text) s1, None)
      | (s1, RequestException e) \<Rightarrow>
          (logging (Warning_request_exception e) s1, None))"

text \<open>
  The \<open>while retries < self.max_retries\<close> loop, entered with the current value of
  \<open>retries\<close>, and the \<open>raise\<close> after it. An exception raised by the product of line 58 or
  by \<open>time.sleep\<close> leaves the function.
\<close>

function make_request_loop ::
  "config \<Rightarrow> server \<Rightarrow> string \<Rightarrow> nat option \<Rightarrow> nat \<Rightarrow> state \<Rightarrow> state \<times> (error + json)" where
  "make_request_loop cfg srv url params retries s =
     (if int retries < max_retries cfg then
        (case try_get srv url params s of
           (s2, Some body) \<Rightarrow> (s2, Inr body)
         | (s2, None) \<Rightarrow>
             (let retries' = retries + 1
              in case float_times_pow2 (backoff_factor cfg) (retries' - 1) of
                   Inl err \<Rightarrow> (s2, Inl err)
                 | Inr sleep_time \<Rightarrow>
                     (let s3 = logging (Info_retrying sleep_time) s2
                      in case time_sleep (sleep_max cfg) sleep_time s3 of
                           (s4, Inl err) \<Rightarrow> (s4, Inl err)
                         | (s4, Inr u) \<Rightarrow> make_request_loop cfg srv url params retries' s4)))
      else (s, Inl (Failed_to_fetch url (max_retries cfg))))"
  by pat_completeness auto
termination
  by (relation "measure (\<lambda>(cfg, srv, url, params, retries, s). nat (max_retries cfg - int retries))") auto

definition make_request :: "config \<Rightarrow> server \<Rightarrow> string \<Rightarrow> nat option \<Rightarrow> state \<Rightarrow> state \<times> (error + json)" where
  "make_request cfg srv url params s = make_request_loop cfg srv url params 0 s"

subsection \<open>Unwrapping the envelope\<close>

fun isinstance_dict :: "json \<Rightarrow> bool" where
  "isinstance_dict (JObj d) = True"
| "isinstance_dict v = False"

text \<open>\<open>k in data\<close> and \<open>data.get(k)\<close>, both only evaluated on a dict.\<close>

fun contains :: "json \<Rightarrow> string \<Rightarrow> bool" where
  "contains (JObj d) k = (k \<in> fst ` set d)"
| "contains v k = False"

fun dict_get :: "json \<Rightarrow> string \<Rightarrow> json" where
  "dict_get (JObj d) k = (case map_of d k of Some v \<Rightarrow> v | None \<Rightarrow> JNull)"
| "dict_get v k = JNull"

text \<open>The expression of lines 97 and 137:
  \<open>data.get("results") if isinstance(data, dict) and "results" in data else data\<close>\<close>

definition unwrap :: "json \<Rightarrow> json" where
  "unwrap data =
     (if isinstance_dict data \<and> contains data ''results'' then dict_get data ''results'' else data)"

subsection \<open>\<open>fetch_paginated\<close>\<close>

record paginated_args =
  endpoint :: string
  params :: "nat option"
  page_param :: string
  per_page :: int
  max_pages :: "int option"

text \<open>\<open>max_pages and page >= max_pages\<close>: \<open>None\<close> and \<open>0\<close> are false.\<close>

definition limit_reached :: "int option \<Rightarrow> int \<Rightarrow> bool" where
  "limit_reached mp page = (case mp of None \<Rightarrow> False | Some m \<Rightarrow> m \<noteq> 0 \<and> page \<ge> m)"

text \<open>
  Lines 91 to 95 of the loop body: the fresh parameter dictionary, the log line and the
  request for the current page.
\<close>

definition page_request ::
  "config \<Rightarrow> server \<Rightarrow> paginated_args \<Rightarrow> int \<Rightarrow> state \<Rightarrow> state \<times> (error + json)" where
  "page_request cfg srv args page s =
     (case copy_or_empty (params args) s of
        (s1, paged_params) \<Rightarrow>
          (let s2 = dict_set paged_params ''results'' (JInt (per_page args))
                      (dict_set paged_params (page_param args) (JInt page) s1);
               s3 = logging (Info_fetching_page page (endpoint args)) s2
           in make_request cfg srv (base_url cfg @ endpoint args) (Some paged_params) s3))"

text \<open>
  The \<open>while True\<close> loop, entered with the current \<open>results\<close> and \<open>page\<close>. It need not
  end, so it is given a number of iterations it may run; \<open>None\<close> says they did not
  suffice.
\<close>

fun fetch_paginated_loop ::
  "nat \<Rightarrow> config \<Rightarrow> server \<Rightarrow> paginated_args \<Rightarrow> json list \<Rightarrow> int \<Rightarrow> state
     \<Rightarrow> (state \<times> (error + json list)) option" where
  "fetch_paginated_loop 0 cfg srv args results page s = None"
| "fetch_paginated_loop (Suc fuel) cfg srv args results page s =
     (case page_request cfg srv args page s of
        (s4, Inl err) \<Rightarrow> Some (s4, Inl err)
      | (s4, Inr data) \<Rightarrow>
          (let items = unwrap data
           in if \<not> truthy items then Some (s4, Inr results)
              else (case iterate items of
                      Inl err \<Rightarrow> Some (s4, Inl err)
                    | Inr xs \<Rightarrow>
                        (let results' = results @ xs
                         in if limit_reached (max_pages args) page then Some (s4, Inr results')
                            else if len items < per_page args then Some (s4, Inr results')
                            else fetch_paginated_loop fuel cfg srv args results' (page + 1) s4))))"

definition fetch_paginated ::
  "nat \<Rightarrow> config \<Rightarrow> server \<Rightarrow> paginated_args \<Rightarrow> state \<Rightarrow> (state \<times> (error + json list)) option" where
  "fetch_paginated fuel cfg srv args s = fetch_paginated_loop fuel cfg srv args [] 1 s"

subsection \<open>\<open>fetch_incremental\<close>\<close>

text \<open>\<open>if since: query_params["since"] = since\<close>: \<open>None\<close> and the empty string are false.\<close>

definition set_since :: "nat \<Rightarrow> string option \<Rightarrow> state \<Rightarrow> state" where
  "set_since query_params since s =
     (case since of
        None \<Rightarrow> s
      | Some c \<Rightarrow> if c \<noteq> [] then dict_set query_params ''since'' (JStr c) s else s)"

definition fetch_incremental ::
  "config \<Rightarrow> server \<Rightarrow> string \<Rightarrow> string option \<Rightarrow> nat option \<Rightarrow> state \<Rightarrow> state \<times> (error + json)" where
  "fetch_incremental cfg srv ep since ps s =
     (case copy_or_empty ps s of
        (s1, query_params) \<Rightarrow>
          (let s2 = set_since query_params since s1;
               s3 = logging (Info_fetching_incremental ep since) s2
           in case make_request cfg srv (base_url cfg @ ep) (Some query_params) s3 of
                (s4, Inl err) \<Rightarrow> (s4, Inl err)
              | (s4, Inr data) \<Rightarrow> (s4, Inr (unwrap data))))"

subsection \<open>\<open>batch_process\<close>\<close>

text \<open>\<open>range(start, stop, step)\<close> for a step other than zero.\<close>

function range_py :: "int \<Rightarrow> int \<Rightarrow> int \<Rightarrow> int list" where
  "range_py start stop step =
     (if (0 < step \<and> start < stop) \<or> (step < 0 \<and> stop < start)
      then start # range_py (start + step) stop step
      else [])"
  by pat_completeness auto
termination
  by (relation "measure (\<lambda>(start, stop, step). nat (if 0 < step then stop - start else start - stop))") auto

text \<open>\<open>data[i:j]\<close> for \<open>0 \<le> i \<le> j\<close>, the only slices the loop takes.\<close>

definition slice :: "'a list \<Rightarrow> int \<Rightarrow> int \<Rightarrow> 'a list" where
  "slice xs i j = take (nat (j - i)) (drop (nat i) xs)"

text \<open>The batches the generator yields when it is run to its end, in order.\<close>

definition batch_process :: "json list \<Rightarrow> int \<Rightarrow> error + json list list" where
  "batch_process data batch_size =
     (if batch_size = 0 then Inl ValueError_range_step_zero
      else Inr (map (\<lambda>i. slice data i (i + batch_size)) (range_py 0 (int (length data)) batch_size)))"

subsection \<open>Describing a run\<close>

text \<open>An attempt succeeds when a response arrived, its status code is 200 and its text
  is JSON.\<close>

fun succeeded :: "attempt \<Rightarrow> bool" where
  "succeeded (Response status_code text (Inr body)) = (status_code = 200)"
| "succeeded (Response status_code text (Inl e)) = False"
| "succeeded (RequestException e) = False"

text \<open>The warning that is logged for an attempt that did not succeed.\<close>

fun warning_of :: "attempt \<Rightarrow> log_record" where
  "warning_of (Response status_code text (Inl e)) =
     (if status_code = 200 then Warning_request_exception e
      else Warning_request_failed status_code text)"
| "warning_of (Response status_code text (Inr body)) = Warning_request_failed status_code text"
| "warning_of (RequestException e) = Warning_request_exception e"

text \<open>
  The sleep of the failed pass entered with \<open>retries = k\<close> is accepted: line 58 can
  compute its length, which is not negative and no longer than \<open>time.sleep\<close> accepts.
\<close>

definition sleep_ok :: "config \<Rightarrow> nat \<Rightarrow> bool" where
  "sleep_ok cfg k =
     (k < 1024 \<and> 0 \<le> backoff_factor cfg * 2 ^ k \<and> backoff_factor cfg * 2 ^ k \<le> sleep_max cfg)"

text \<open>
  The events of one failed pass through the retry loop, entered with \<open>retries = k\<close>: the
  request, its warning, the announcement of the delay and the sleep of
  \<open>backoff_factor * 2 ^ k\<close> seconds.
\<close>

definition failed_round :: "config \<Rightarrow> string \<Rightarrow> pdict option \<Rightarrow> attempt \<Rightarrow> nat \<Rightarrow> event list" where
  "failed_round cfg url p a k =
     [Http_get url p 10 a,
      Log (warning_of a),
      Log (Info_retrying (backoff_factor cfg * 2 ^ k)),
      Sleep (backoff_factor cfg * 2 ^ k)]"

text \<open>The events of \<open>j\<close> failed passes in a row, the first one being request number
  \<open>first\<close> of the server and entered with \<open>retries = k\<close>.\<close>

definition failed_rounds ::
  "config \<Rightarrow> server \<Rightarrow> string \<Rightarrow> pdict option \<Rightarrow> nat \<Rightarrow> nat \<Rightarrow> nat \<Rightarrow> event list" where
  "failed_rounds cfg srv url p first k j =
     concat (map (\<lambda>i. failed_round cfg url p (srv url p (first + i)) (k + i)) [0..<j])"

text \<open>The parsed bodies of the successful requests of a trace, in the order they arrived.\<close>

fun fetched :: "event list \<Rightarrow> json list" where
  "fetched [] = []"
| "fetched (Http_get url p timeout (Response status_code text (Inr body)) # es) =
     (if status_code = 200 then body # fetched es else fetched es)"
| "fetched (e # es) = fetched es"

text \<open>The requests of a trace: URL and query parameters.\<close>

fun gets :: "event list \<Rightarrow> (string \<times> pdict option) list" where
  "gets [] = []"
| "gets (Http_get url p timeout a # es) = (url, p) # gets es"
| "gets (e # es) = gets es"



text \<open>The query parameters of an incremental fetch, from the cursor and the contents of
  the caller's parameters.\<close>

definition incremental_params :: "string option \<Rightarrow> pdict \<Rightarrow> pdict" where
  "incremental_params since base =
     (case since of
        None \<Rightarrow> base
      | Some c \<Rightarrow> if c \<noteq> [] then AList.update ''since'' (JStr c) base else base)"

text \<open>The contents of an optional dictionary, \<open>None\<close> counting as empty.\<close>

definition contents :: "nat option \<Rightarrow> state \<Rightarrow> pdict" where
  "contents ps s = (case ps of None \<Rightarrow> [] | Some a \<Rightarrow> heap s a)"

subsection \<open>Example inputs\<close>

text \<open>A configuration with two attempts and half a second of backoff, on a platform
  that keeps the length of a sleep as a signed 64-bit number of nanoseconds; the same with
  a backoff of ten thousand million seconds; an empty store; a server that is down, a
  server that answers every request with the same body, and a server that answers every
  request with status 200 and a text that is not JSON.\<close>

definition cfg_example :: config where
  "cfg_example = \<lparr>base_url = ''https://host'', max_retries = 2, backoff_factor = 1 / 2,
     sleep_max = 9223372036\<rparr>"

definition cfg_long :: config where
  "cfg_long = \<lparr>base_url = ''https://host'', max_retries = 2, backoff_factor = 10000000000,
     sleep_max = 9223372036\<rparr>"

definition s_init :: state where
  "s_init = \<lparr>heap = (\<lambda>a. []), next_addr = 0, events = [], issued = 0\<rparr>"

definition srv_down :: server where
  "srv_down url p n = Response 500 ''down'' (Inl ''Expecting value'')"

definition srv_const :: "json \<Rightarrow> server" where
  "srv_const body url p n = Response 200 ''ok'' (Inr body)"

definition srv_not_json :: server where
  "srv_not_json url p n = Response 200 ''not json'' (Inl ''Expecting value'')"

definition args_example :: paginated_args where
  "args_example = \<lparr>endpoint = ''/items'', params = None, page_param = ''page'',
     per_page = 2, max_pages = None\<rparr>"

text \<open>A store in which the caller holds one parameter dictionary, at address 0, and the
  arguments of a paginated fetch that passes it.\<close>

definition s_caller :: state where
  "s_caller = \<lparr>heap = (\<lambda>a. [])(0 := [(''date'', JStr ''2025-07'')]), next_addr = 1,
     events = [], issued = 0\<rparr>"

definition args_caller :: paginated_args where
  "args_caller = \<lparr>endpoint = ''/items'', params = Some 0, page_param = ''page'',
     per_page = 2, max_pages = None\<rparr>"

text \<open>A store in which the caller's dictionary already holds a \<open>"since"\<close> key.\<close>

definition s_since :: state where
  "s_since = \<lparr>heap = (\<lambda>a. [])(0 := [(''since'', JStr ''2020-01-01'')]), next_addr = 1,
     events = [], issued = 0\<rparr>"


section \<open>Properties\<close>

subsection \<open>Batching\<close>

declare range_py.simps [simp del]

lemma range_py_pos:
  "0 < step \<Longrightarrow> range_py start stop step =
     map (\<lambda>k. start + int k * step) [0..<nat ((stop - start + step - 1) div step)]"
proof (induction start stop step rule: range_py.induct)
  case (1 start stop step)
  show ?case
  proof (cases "start < stop")
    case False
    then have "(stop - start + step - 1) div step \<le> 0"
    proof (cases "0 \<le> stop - start + step - 1")
      case True
      with False have "(stop - start + step - 1) div step = 0"
        by (intro div_pos_pos_trivial) simp_all
      then show ?thesis by simp
    next
      case False
      then have "(stop - start + step - 1) div step < 0"
        using 1(2) by (simp add: pos_imp_zdiv_neg_iff)
      then show ?thesis by simp
    qed
    with False 1(2) show ?thesis by (subst range_py.simps) simp
  next
    case True
    let ?m = "nat ((stop - (start + step) + step - 1) div step)"
    have m: "nat ((stop - start + step - 1) div step) = Suc ?m"
    proof -
      have "stop - start + step - 1 = (stop - (start + step) + step - 1) + step"
        by simp
      then have "(stop - start + step - 1) div step = (stop - (start + step) + step - 1) div step + 1"
        using 1(2) by (metis div_add_self2 less_irrefl)
      moreover have "0 \<le> (stop - (start + step) + step - 1) div step"
        using True 1(2) by (simp add: pos_imp_zdiv_nonneg_iff)
      ultimately show ?thesis by simp
    qed
    have "range_py start stop step = start # range_py (start + step) stop step"
      using True 1(2) by (subst range_py.simps) simp
    also have "\<dots> = start # map (\<lambda>k. (start + step) + int k * step) [0..<?m]"
      using 1(1) True 1(2) by simp
    also have "\<dots> = map (\<lambda>k. start + int k * step) [0..<Suc ?m]"
    proof -
      have "[0..<Suc ?m] = 0 # map Suc [0..<?m]"
        by (simp add: map_Suc_upt upt_conv_Cons del: upt_Suc)
      then show ?thesis by (simp add: algebra_simps comp_def del: upt_Suc)
    qed
    finally show ?thesis using m by simp
  qed
qed

lemma batch_process_chunks:
  assumes "0 < b"
  shows "batch_process data b = Inr (map (\<lambda>k. take (nat b) (drop (k * nat b) data)) [0..<(length data + nat b - 1) div nat b])"
proof -
  obtain B where B: "b = int B" "0 < B"
    using assms by (metis nat_0_le order_less_imp_le zero_less_nat_eq)
  have "(int (length data) + int B - 1) div int B = int ((length data + B - 1) div B)"
    using B(2) by (simp add: zdiv_int of_nat_diff)
  then have m: "nat ((int (length data) - 0 + b - 1) div b) = (length data + B - 1) div B"
    using B(1) by simp
  have s: "slice data (0 + int k * b) (0 + int k * b + b) = take B (drop (k * B) data)" for k
    using B by (simp add: slice_def nat_mult_distrib)
  have "range_py 0 (int (length data)) b = map (\<lambda>k. 0 + int k * b) [0..<(length data + B - 1) div B]"
    using range_py_pos [OF assms, of 0 "int (length data)"] m by simp
  then have "map (\<lambda>i. slice data i (i + b)) (range_py 0 (int (length data)) b)
      = map (\<lambda>k. take B (drop (k * B) data)) [0..<(length data + B - 1) div B]"
    using s by (simp add: comp_def)
  then show ?thesis
    using assms B by (simp add: batch_process_def)
qed

lemma concat_chunks_take:
  "concat (map (\<lambda>k. take B (drop (k * B) xs)) [0..<m]) = take (m * B) xs"
proof (induction m)
  case 0
  show ?case by simp
next
  case (Suc m)
  have "take (m * B) xs @ take B (drop (m * B) xs) = take (m * B + B) xs"
    by (simp add: take_add)
  with Suc show ?case by (simp add: add.commute)
qed

lemma chunk_count_bounds:
  assumes "0 < (B::nat)"
  shows "n \<le> ((n + B - 1) div B) * B" and "k < (n + B - 1) div B \<Longrightarrow> k * B < n"
proof -
  let ?m = "(n + B - 1) div B"
  have "n + B - 1 = ?m * B + (n + B - 1) mod B" by simp
  moreover have "(n + B - 1) mod B < B" using assms by simp
  ultimately show "n \<le> ?m * B" by linarith
  assume "k < ?m"
  then have "Suc k \<le> ?m" by simp
  then have "Suc k * B \<le> ?m * B" by (rule mult_le_mono1)
  also have "\<dots> \<le> n + B - 1" by (metis div_mult_mod_eq le_add1)
  finally show "k * B < n" using assms by simp
qed


text \<open>
  C8: for a positive \<open>batch_size\<close>, \<open>batch_process\<close> yields the slices
  \<open>data[k * batch_size : (k + 1) * batch_size]\<close> in order; their concatenation is the
  input, every batch but the last has length \<open>batch_size\<close>, no batch is empty or longer
  than \<open>batch_size\<close>, and an input of length 107 with \<open>batch_size = 50\<close> gives batches of
  lengths 50, 50, 7.
\<close>

theorem batch_process_covers:
  assumes "0 < batch_size"
  shows "\<exists>bs. batch_process data batch_size = Inr bs
     \<and> concat bs = data
     \<and> (\<forall>k<length bs. bs ! k = slice data (int k * batch_size) (int k * batch_size + batch_size))
     \<and> (\<forall>k. Suc k < length bs \<longrightarrow> int (length (bs ! k)) = batch_size)
     \<and> (\<forall>b\<in>set bs. b \<noteq> [] \<and> int (length b) \<le> batch_size)
     \<and> (length data = 107 \<and> batch_size = 50 \<longrightarrow> map length bs = [50, 50, 7])"
proof -
  define B where "B = nat batch_size"
  define m where "m = (length data + B - 1) div B"
  define bs where "bs = map (\<lambda>k. take B (drop (k * B) data)) [0..<m]"
  have B: "0 < B" "batch_size = int B"
    using assms by (simp_all add: B_def)
  have run: "batch_process data batch_size = Inr bs"
    using batch_process_chunks [OF assms, of data] by (simp add: bs_def m_def B_def)
  have len: "length bs = m"
    by (simp add: bs_def)
  have nth: "bs ! k = take B (drop (k * B) data)" if "k < m" for k
    using that by (simp add: bs_def)
  have cover: "concat bs = data"
    using concat_chunks_take [of B data m] chunk_count_bounds(1) [OF B(1), of "length data"]
    by (simp add: bs_def m_def)
  have contiguous: "\<forall>k<length bs. bs ! k = slice data (int k * batch_size) (int k * batch_size + batch_size)"
    using nth len B by (simp add: slice_def nat_mult_distrib)
  have full: "int (length (bs ! k)) = batch_size" if "Suc k < length bs" for k
  proof -
    have "Suc k * B < length data"
      using chunk_count_bounds(2) [OF B(1), of "Suc k" "length data"] that len by (simp add: m_def)
    then have "B \<le> length data - k * B" by simp
    then show ?thesis using nth [of k] that len B by simp
  qed
  have bounded: "b \<noteq> [] \<and> int (length b) \<le> batch_size" if "b \<in> set bs" for b
  proof -
    from that obtain k where k: "k < m" "b = take B (drop (k * B) data)"
      by (auto simp: bs_def)
    have "k * B < length data"
      using chunk_count_bounds(2) [OF B(1), of k "length data"] k(1) by (simp add: m_def)
    then show ?thesis using k(2) B by simp
  qed
  have example: "map length bs = [50, 50, 7]" if "length data = 107" "batch_size = 50"
  proof -
    have B50: "B = 50" using that(2) by (simp add: B_def)
    have m3: "m = Suc (Suc (Suc 0))" unfolding m_def B50 that(1) by simp
    have "bs = [take 50 data, take 50 (drop 50 data), take 50 (drop 100 data)]"
      unfolding bs_def m3 B50 by simp
    then show ?thesis using that(1) by simp
  qed
  from full have full': "\<forall>k. Suc k < length bs \<longrightarrow> int (length (bs ! k)) = batch_size"
    by blast
  from bounded have bounded': "\<forall>b\<in>set bs. b \<noteq> [] \<and> int (length b) \<le> batch_size"
    by blast
  from example have example': "length data = 107 \<and> batch_size = 50 \<longrightarrow> map length bs = [50, 50, 7]"
    by blast
  show ?thesis
    by (rule exI [of _ bs]) (intro conjI run cover contiguous full' bounded' example')
qed

theorem batch_process_covers_witness:
  "(0::int) < 50 \<and> (\<exists>bs. batch_process (replicate 107 JNull) 50 = Inr bs
      \<and> concat bs = replicate 107 JNull \<and> map length bs = [50, 50, 7])"
proof -
  have h: "(0::int) < 50" by simp
  from batch_process_covers [OF h, of "replicate 107 JNull"]
  obtain bs where bs: "batch_process (replicate 107 JNull) 50 = Inr bs"
      "concat bs = replicate 107 JNull"
      "length (replicate 107 JNull) = 107 \<and> (50::int) = 50 \<longrightarrow> map length bs = [50, 50, 7]"
    by (elim exE conjE) (rule that; assumption)
  from bs(3) have "map length bs = [50, 50, 7]" by simp
  with bs(1,2) h show ?thesis by (intro conjI exI [of _ bs])
qed


subsection \<open>The retry loop\<close>

declare make_request_loop.simps [simp del]

lemma state_update_order [simp]:
  "heap_update f (next_addr_update g s) = next_addr_update g (heap_update f s)"
  "heap_update f (events_update h s) = events_update h (heap_update f s)"
  "heap_update f (issued_update k s) = issued_update k (heap_update f s)"
  "next_addr_update g (events_update h s) = events_update h (next_addr_update g s)"
  "next_addr_update g (issued_update k s) = issued_update k (next_addr_update g s)"
  "events_update h (issued_update k s) = issued_update k (events_update h s)"
  by (rule state.equality; simp)+

lemma succeeded_cases:
  assumes "succeeded a"
  obtains tx body where "a = Response 200 tx (Inr body)"
  using assms by (cases a rule: succeeded.cases) simp_all

lemma try_get_ok:
  "srv url (map_option (heap s) ps) (issued s) = Response 200 tx (Inr body) \<Longrightarrow>
   try_get srv url ps s =
     (s\<lparr>events := events s @
          [Http_get url (map_option (heap s) ps) 10 (Response 200 tx (Inr body))],
        issued := Suc (issued s)\<rparr>, Some body)"
  by (simp add: try_get_def requests_get_def emit_def Let_def)

lemma try_get_failed:
  "\<not> succeeded (srv url (map_option (heap s) ps) (issued s)) \<Longrightarrow>
   try_get srv url ps s =
     (s\<lparr>events := events s @
          [Http_get url (map_option (heap s) ps) 10 (srv url (map_option (heap s) ps) (issued s)),
           Log (warning_of (srv url (map_option (heap s) ps) (issued s)))],
        issued := Suc (issued s)\<rparr>, None)"
  by (cases "srv url (map_option (heap s) ps) (issued s)" rule: succeeded.cases)
     (simp_all add: try_get_def requests_get_def emit_def logging_def Let_def)

lemma loop_exit:
  "\<not> int retries < max_retries cfg \<Longrightarrow>
   make_request_loop cfg srv url ps retries s = (s, Inl (Failed_to_fetch url (max_retries cfg)))"
  by (subst make_request_loop.simps) simp

lemma loop_step_ok:
  assumes "int retries < max_retries cfg"
    and "srv url (map_option (heap s) ps) (issued s) = Response 200 tx (Inr body)"
  shows "make_request_loop cfg srv url ps retries s =
     (s\<lparr>events := events s @
          [Http_get url (map_option (heap s) ps) 10 (Response 200 tx (Inr body))],
        issued := Suc (issued s)\<rparr>, Inr body)"
  using assms by (subst make_request_loop.simps) (simp add: try_get_ok)

lemma loop_step_failed:
  assumes "int retries < max_retries cfg"
    and "\<not> succeeded (srv url (map_option (heap s) ps) (issued s))"
    and "sleep_ok cfg retries"
  shows "make_request_loop cfg srv url ps retries s =
     make_request_loop cfg srv url ps (Suc retries)
       (s\<lparr>events := events s @
            failed_round cfg url (map_option (heap s) ps)
              (srv url (map_option (heap s) ps) (issued s)) retries,
          issued := Suc (issued s)\<rparr>)"
proof -
  have "\<not> 1024 \<le> retries" "\<not> backoff_factor cfg * 2 ^ retries < 0"
    "\<not> sleep_max cfg < \<bar>backoff_factor cfg * 2 ^ retries\<bar>"
    using assms(3) by (simp_all add: sleep_ok_def not_less not_le abs_if)
  then show ?thesis
    using assms(1,2)
    by (subst make_request_loop.simps)
       (simp add: try_get_failed float_times_pow2_def time_sleep_def logging_def emit_def
          failed_round_def Let_def)
qed

text \<open>A failed attempt whose sleep is not accepted: the exception leaves the function,
  before the announcement of the delay when line 58 raised it, after it when
  \<open>time.sleep\<close> did.\<close>

lemma loop_step_aborted:
  assumes "int retries < max_retries cfg"
    and "\<not> succeeded (srv url (map_option (heap s) ps) (issued s))"
    and "\<not> sleep_ok cfg retries"
  shows "\<exists>evs err. make_request_loop cfg srv url ps retries s =
       (s\<lparr>events := events s @
            Http_get url (map_option (heap s) ps) 10 (srv url (map_option (heap s) ps) (issued s)) #
            Log (warning_of (srv url (map_option (heap s) ps) (issued s))) # evs,
          issued := Suc (issued s)\<rparr>, Inl err) \<and>
     (evs = [] \<and> err = OverflowError_int_too_large \<or>
      evs = [Log (Info_retrying (backoff_factor cfg * 2 ^ retries))] \<and>
        (err = ValueError_sleep_negative \<or> err = OverflowError_sleep_too_long))"
proof (cases "1024 \<le> retries")
  case True
  then show ?thesis
    using assms(1,2)
    by (subst make_request_loop.simps)
       (simp add: try_get_failed float_times_pow2_def Let_def)
next
  case small: False
  show ?thesis
  proof (cases "sleep_max cfg < \<bar>backoff_factor cfg * 2 ^ retries\<bar>")
    case True
    then show ?thesis
      using assms(1,2) small
      by (subst make_request_loop.simps)
         (simp add: try_get_failed float_times_pow2_def time_sleep_def logging_def emit_def Let_def)
  next
    case False
    with small assms(3) have "backoff_factor cfg * 2 ^ retries < 0"
      by (simp add: sleep_ok_def not_less not_le abs_if split: if_splits)
    with False show ?thesis
      using assms(1,2) small
      by (subst make_request_loop.simps)
         (simp add: try_get_failed float_times_pow2_def time_sleep_def logging_def emit_def Let_def)
  qed
qed

lemma failed_rounds_Suc:
  "failed_rounds cfg srv url p first k (Suc j) =
     failed_round cfg url p (srv url p first) k @ failed_rounds cfg srv url p (Suc first) (Suc k) j"
proof -
  have "[0..<Suc j] = 0 # map Suc [0..<j]"
    by (simp add: map_Suc_upt upt_conv_Cons del: upt_Suc)
  then show ?thesis
    by (simp add: failed_rounds_def comp_def del: upt_Suc)
qed

lemma failed_rounds_0 [simp]: "failed_rounds cfg srv url p first k 0 = []"
  by (simp add: failed_rounds_def)

text \<open>\<open>j\<close> passes that fail, each with a sleep that is accepted, lead to the loop entered
  with \<open>retries + j\<close>.\<close>

lemma loop_failed_prefix:
  assumes "\<forall>i<j. int (retries + i) < max_retries cfg \<and>
      \<not> succeeded (srv url (map_option (heap s) ps) (issued s + i)) \<and>
      sleep_ok cfg (retries + i)"
  shows "make_request_loop cfg srv url ps retries s =
     make_request_loop cfg srv url ps (retries + j)
       (s\<lparr>events := events s @
            failed_rounds cfg srv url (map_option (heap s) ps) (issued s) retries j,
          issued := issued s + j\<rparr>)"
  using assms
proof (induction j arbitrary: retries s)
  case 0
  show ?case by simp
next
  case (Suc j)
  let ?p = "map_option (heap s) ps"
  let ?s1 = "s\<lparr>events := events s @ failed_round cfg url ?p (srv url ?p (issued s)) retries,
               issued := Suc (issued s)\<rparr>"
  from Suc.prems have first: "int retries < max_retries cfg"
      "\<not> succeeded (srv url ?p (issued s))" "sleep_ok cfg retries"
    by (metis add.right_neutral zero_less_Suc)+
  have step: "make_request_loop cfg srv url ps retries s =
      make_request_loop cfg srv url ps (Suc retries) ?s1"
    using first by (rule loop_step_failed)
  have rest: "\<forall>i<j. int (Suc retries + i) < max_retries cfg \<and>
      \<not> succeeded (srv url (map_option (heap ?s1) ps) (issued ?s1 + i)) \<and>
      sleep_ok cfg (Suc retries + i)"
  proof (intro allI impI)
    fix i
    assume "i < j"
    then have "Suc i < Suc j" by simp
    with Suc.prems have "int (retries + Suc i) < max_retries cfg \<and>
        \<not> succeeded (srv url ?p (issued s + Suc i)) \<and> sleep_ok cfg (retries + Suc i)"
      by blast
    then show "int (Suc retries + i) < max_retries cfg \<and>
        \<not> succeeded (srv url (map_option (heap ?s1) ps) (issued ?s1 + i)) \<and>
        sleep_ok cfg (Suc retries + i)"
      by simp
  qed
  have "make_request_loop cfg srv url ps (Suc retries) ?s1 =
      make_request_loop cfg srv url ps (Suc retries + j)
        (?s1\<lparr>events := events ?s1 @
             failed_rounds cfg srv url (map_option (heap ?s1) ps) (issued ?s1) (Suc retries) j,
           issued := issued ?s1 + j\<rparr>)"
    using rest by (rule Suc.IH)
  with step show ?case
    by (simp add: failed_rounds_Suc)
qed

text \<open>
  Every run of the loop: some number \<open>j\<close> of failed passes whose sleeps are accepted, and
  then one of three ends. The next attempt succeeds and its body is returned; or
  \<open>retries\<close> has reached \<open>max_retries\<close> and the exception of line 62 is raised; or the next
  attempt fails and its sleep is not accepted, and the exception of line 58 or of
  \<open>time.sleep\<close> leaves the function.
\<close>

lemma loop_shape:
  "\<exists>j. (\<forall>i<j. int (retries + i) < max_retries cfg \<and>
            \<not> succeeded (srv url (map_option (heap s) ps) (issued s + i)) \<and>
            sleep_ok cfg (retries + i)) \<and>
     ((\<exists>tx body. int (retries + j) < max_retries cfg \<and>
         srv url (map_option (heap s) ps) (issued s + j) = Response 200 tx (Inr body) \<and>
         make_request_loop cfg srv url ps retries s =
           (s\<lparr>events := events s @
                failed_rounds cfg srv url (map_option (heap s) ps) (issued s) retries j @
                [Http_get url (map_option (heap s) ps) 10 (Response 200 tx (Inr body))],
              issued := Suc (issued s + j)\<rparr>, Inr body)) \<or>
      (\<not> int (retries + j) < max_retries cfg \<and>
         make_request_loop cfg srv url ps retries s =
           (s\<lparr>events := events s @
                failed_rounds cfg srv url (map_option (heap s) ps) (issued s) retries j,
              issued := issued s + j\<rparr>, Inl (Failed_to_fetch url (max_retries cfg)))) \<or>
      (int (retries + j) < max_retries cfg \<and>
         \<not> succeeded (srv url (map_option (heap s) ps) (issued s + j)) \<and>
         \<not> sleep_ok cfg (retries + j) \<and>
         (\<exists>evs err. make_request_loop cfg srv url ps retries s =
            (s\<lparr>events := events s @
                 failed_rounds cfg srv url (map_option (heap s) ps) (issued s) retries j @
                 Http_get url (map_option (heap s) ps) 10
                   (srv url (map_option (heap s) ps) (issued s + j)) #
                 Log (warning_of (srv url (map_option (heap s) ps) (issued s + j))) # evs,
               issued := Suc (issued s + j)\<rparr>, Inl err) \<and>
            (evs = [] \<and> err = OverflowError_int_too_large \<or>
             evs = [Log (Info_retrying (backoff_factor cfg * 2 ^ (retries + j)))] \<and>
               (err = ValueError_sleep_negative \<or> err = OverflowError_sleep_too_long)))))"
proof -
  let ?p = "map_option (heap s) ps"
  define Q where "Q i \<longleftrightarrow> int (retries + i) < max_retries cfg \<and>
      \<not> succeeded (srv url ?p (issued s + i)) \<and> sleep_ok cfg (retries + i)" for i
  have "\<not> Q (nat (max_retries cfg - int retries))"
    by (simp add: Q_def)
  then have "\<exists>n. \<not> Q n" ..
  then obtain j where j: "\<not> Q j" "\<forall>i<j. Q i"
    using exists_least_iff [of "\<lambda>n. \<not> Q n"] by auto
  let ?sj = "s\<lparr>events := events s @ failed_rounds cfg srv url ?p (issued s) retries j,
               issued := issued s + j\<rparr>"
  have all: "\<forall>i<j. int (retries + i) < max_retries cfg \<and>
      \<not> succeeded (srv url ?p (issued s + i)) \<and> sleep_ok cfg (retries + i)"
    using j(2) by (simp add: Q_def)
  then have pre: "make_request_loop cfg srv url ps retries s =
      make_request_loop cfg srv url ps (retries + j) ?sj"
    by (rule loop_failed_prefix)
  have sj: "map_option (heap ?sj) ps = ?p" "issued ?sj = issued s + j" "events ?sj =
      events s @ failed_rounds cfg srv url ?p (issued s) retries j"
    by simp_all
  consider (exhausted) "\<not> int (retries + j) < max_retries cfg"
    | (ok) "int (retries + j) < max_retries cfg" "succeeded (srv url ?p (issued s + j))"
    | (aborted) "int (retries + j) < max_retries cfg" "\<not> succeeded (srv url ?p (issued s + j))"
        "\<not> sleep_ok cfg (retries + j)"
    using j(1) by (auto simp: Q_def)
  then show ?thesis
  proof cases
    case exhausted
    then have "make_request_loop cfg srv url ps retries s =
        (?sj, Inl (Failed_to_fetch url (max_retries cfg)))"
      unfolding pre by (rule loop_exit)
    with all exhausted show ?thesis by blast
  next
    case ok
    from ok(2) obtain tx body where a: "srv url ?p (issued s + j) = Response 200 tx (Inr body)"
      by (rule succeeded_cases)
    have "make_request_loop cfg srv url ps (retries + j) ?sj =
        (?sj\<lparr>events := events ?sj @ [Http_get url (map_option (heap ?sj) ps) 10 (Response 200 tx (Inr body))],
           issued := Suc (issued ?sj)\<rparr>, Inr body)"
      using ok(1) a by (intro loop_step_ok) simp_all
    then have "make_request_loop cfg srv url ps retries s =
        (s\<lparr>events := events s @ failed_rounds cfg srv url ?p (issued s) retries j @
             [Http_get url ?p 10 (Response 200 tx (Inr body))],
           issued := Suc (issued s + j)\<rparr>, Inr body)"
      unfolding pre by simp
    with all ok(1) a show ?thesis by blast
  next
    case aborted
    have "\<exists>evs err. make_request_loop cfg srv url ps (retries + j) ?sj =
       (?sj\<lparr>events := events ?sj @
            Http_get url (map_option (heap ?sj) ps) 10 (srv url (map_option (heap ?sj) ps) (issued ?sj)) #
            Log (warning_of (srv url (map_option (heap ?sj) ps) (issued ?sj))) # evs,
          issued := Suc (issued ?sj)\<rparr>, Inl err) \<and>
       (evs = [] \<and> err = OverflowError_int_too_large \<or>
        evs = [Log (Info_retrying (backoff_factor cfg * 2 ^ (retries + j)))] \<and>
          (err = ValueError_sleep_negative \<or> err = OverflowError_sleep_too_long))"
      using aborted by (intro loop_step_aborted) simp_all
    then obtain evs err where "make_request_loop cfg srv url ps retries s =
        (s\<lparr>events := events s @ failed_rounds cfg srv url ?p (issued s) retries j @
             Http_get url ?p 10 (srv url ?p (issued s + j)) #
             Log (warning_of (srv url ?p (issued s + j))) # evs,
           issued := Suc (issued s + j)\<rparr>, Inl err)"
      and "evs = [] \<and> err = OverflowError_int_too_large \<or>
        evs = [Log (Info_retrying (backoff_factor cfg * 2 ^ (retries + j)))] \<and>
          (err = ValueError_sleep_negative \<or> err = OverflowError_sleep_too_long)"
      unfolding pre by auto
    with all aborted show ?thesis by blast
  qed
qed

lemma gets_append [simp]: "gets (xs @ ys) = gets xs @ gets ys"
  by (induction xs rule: gets.induct) simp_all

lemma gets_failed_round [simp]: "gets (failed_round cfg url p a k) = [(url, p)]"
  by (simp add: failed_round_def)

lemma gets_failed_rounds [simp]:
  "gets (failed_rounds cfg srv url p first k j) = replicate j (url, p)"
  by (induction j arbitrary: first k) (simp_all add: failed_rounds_Suc)

lemma fetched_append [simp]: "fetched (xs @ ys) = fetched xs @ fetched ys"
  by (induction xs rule: fetched.induct) simp_all

lemma fetched_failed_get [simp]:
  "\<not> succeeded a \<Longrightarrow> fetched (Http_get url p t a # es) = fetched es"
  by (cases a rule: succeeded.cases) simp_all

lemma fetched_failed_round [simp]:
  "\<not> succeeded a \<Longrightarrow> fetched (failed_round cfg url p a k) = []"
  by (simp add: failed_round_def)

lemma fetched_failed_rounds:
  "\<forall>i<j. \<not> succeeded (srv url p (first + i)) \<Longrightarrow>
   fetched (failed_rounds cfg srv url p first k j) = []"
proof (induction j arbitrary: first k)
  case 0
  show ?case by simp
next
  case (Suc j)
  from Suc.prems have "\<not> succeeded (srv url p first)"
    by (metis add.right_neutral zero_less_Suc)
  moreover have "\<forall>i<j. \<not> succeeded (srv url p (Suc first + i))"
    using Suc.prems by (metis Suc_less_eq add_Suc_shift)
  then have "fetched (failed_rounds cfg srv url p (Suc first) (Suc k) j) = []"
    by (rule Suc.IH)
  ultimately show ?case
    by (simp add: failed_rounds_Suc)
qed

text \<open>
  What every run of the loop has in common: it leaves the store as it was, it adds events
  to the trace, it counts the requests it sent, all of which carry the same URL and
  parameters, and it returns the parsed body of the one successful response, if any.
\<close>

lemma loop_summary:
  "\<exists>rest r. make_request_loop cfg srv url ps retries s =
       (s\<lparr>events := events s @ rest, issued := issued s + length (gets rest)\<rparr>, r) \<and>
     gets rest = replicate (length (gets rest)) (url, map_option (heap s) ps) \<and>
     (case r of
        Inr data \<Rightarrow> fetched rest = [data] \<and>
          (\<exists>n tx. srv url (map_option (heap s) ps) n = Response 200 tx (Inr data))
      | Inl err \<Rightarrow> fetched rest = [])"
proof -
  let ?p = "map_option (heap s) ps"
  let ?L = "make_request_loop cfg srv url ps retries s"
  from loop_shape [of retries cfg srv url s ps]
  obtain j where all: "\<forall>i<j. int (retries + i) < max_retries cfg \<and>
            \<not> succeeded (srv url ?p (issued s + i)) \<and> sleep_ok cfg (retries + i)"
    and ends: "(\<exists>tx body. int (retries + j) < max_retries cfg \<and>
         srv url ?p (issued s + j) = Response 200 tx (Inr body) \<and>
         ?L = (s\<lparr>events := events s @ failed_rounds cfg srv url ?p (issued s) retries j @
                  [Http_get url ?p 10 (Response 200 tx (Inr body))],
                issued := Suc (issued s + j)\<rparr>, Inr body)) \<or>
      (\<not> int (retries + j) < max_retries cfg \<and>
         ?L = (s\<lparr>events := events s @ failed_rounds cfg srv url ?p (issued s) retries j,
              issued := issued s + j\<rparr>, Inl (Failed_to_fetch url (max_retries cfg)))) \<or>
      (int (retries + j) < max_retries cfg \<and>
         \<not> succeeded (srv url ?p (issued s + j)) \<and>
         \<not> sleep_ok cfg (retries + j) \<and>
         (\<exists>evs err. ?L =
            (s\<lparr>events := events s @ failed_rounds cfg srv url ?p (issued s) retries j @
                 Http_get url ?p 10 (srv url ?p (issued s + j)) #
                 Log (warning_of (srv url ?p (issued s + j))) # evs,
               issued := Suc (issued s + j)\<rparr>, Inl err) \<and>
            (evs = [] \<and> err = OverflowError_int_too_large \<or>
             evs = [Log (Info_retrying (backoff_factor cfg * 2 ^ (retries + j)))] \<and>
               (err = ValueError_sleep_negative \<or> err = OverflowError_sleep_too_long))))"
    by (elim exE conjE) (rule that; assumption)
  from all have fails: "\<forall>i<j. \<not> succeeded (srv url ?p (issued s + i))"
    by simp
  have quiet: "fetched (failed_rounds cfg srv url ?p (issued s) retries j) = []"
    using fails by (rule fetched_failed_rounds)
  from ends show ?thesis
  proof (elim disjE)
    assume "\<exists>tx body. int (retries + j) < max_retries cfg \<and>
         srv url ?p (issued s + j) = Response 200 tx (Inr body) \<and>
         ?L = (s\<lparr>events := events s @ failed_rounds cfg srv url ?p (issued s) retries j @
                  [Http_get url ?p 10 (Response 200 tx (Inr body))],
                issued := Suc (issued s + j)\<rparr>, Inr body)"
    then obtain tx body where a: "srv url ?p (issued s + j) = Response 200 tx (Inr body)"
      and L: "?L = (s\<lparr>events := events s @ failed_rounds cfg srv url ?p (issued s) retries j @
                  [Http_get url ?p 10 (Response 200 tx (Inr body))],
                issued := Suc (issued s + j)\<rparr>, Inr body)"
      by (elim exE conjE) (rule that; assumption)
    let ?rest = "failed_rounds cfg srv url ?p (issued s) retries j @
        [Http_get url ?p 10 (Response 200 tx (Inr body))]"
    have "?L = (s\<lparr>events := events s @ ?rest, issued := issued s + length (gets ?rest)\<rparr>, Inr body)"
      unfolding L by simp
    moreover have "gets ?rest = replicate (length (gets ?rest)) (url, ?p)"
      by (simp add: replicate_append_same)
    moreover have "fetched ?rest = [body]"
      using quiet by simp
    moreover have "\<exists>n tx. srv url ?p n = Response 200 tx (Inr body)"
      using a by blast
    ultimately show ?thesis
      by (intro exI [of _ ?rest] exI [of _ "Inr body"]) simp
  next
    assume "\<not> int (retries + j) < max_retries cfg \<and>
         ?L = (s\<lparr>events := events s @ failed_rounds cfg srv url ?p (issued s) retries j,
              issued := issued s + j\<rparr>, Inl (Failed_to_fetch url (max_retries cfg)))"
    then have L: "?L = (s\<lparr>events := events s @ failed_rounds cfg srv url ?p (issued s) retries j,
              issued := issued s + j\<rparr>, Inl (Failed_to_fetch url (max_retries cfg)))"
      by (rule conjunct2)
    let ?rest = "failed_rounds cfg srv url ?p (issued s) retries j"
    have "?L = (s\<lparr>events := events s @ ?rest, issued := issued s + length (gets ?rest)\<rparr>,
        Inl (Failed_to_fetch url (max_retries cfg)))"
      unfolding L by simp
    with quiet show ?thesis
      by (intro exI [of _ ?rest] exI [of _ "Inl (Failed_to_fetch url (max_retries cfg))"]) simp
  next
    assume "int (retries + j) < max_retries cfg \<and>
         \<not> succeeded (srv url ?p (issued s + j)) \<and>
         \<not> sleep_ok cfg (retries + j) \<and>
         (\<exists>evs err. ?L =
            (s\<lparr>events := events s @ failed_rounds cfg srv url ?p (issued s) retries j @
                 Http_get url ?p 10 (srv url ?p (issued s + j)) #
                 Log (warning_of (srv url ?p (issued s + j))) # evs,
               issued := Suc (issued s + j)\<rparr>, Inl err) \<and>
            (evs = [] \<and> err = OverflowError_int_too_large \<or>
             evs = [Log (Info_retrying (backoff_factor cfg * 2 ^ (retries + j)))] \<and>
               (err = ValueError_sleep_negative \<or> err = OverflowError_sleep_too_long)))"
    then obtain evs err where bad: "\<not> succeeded (srv url ?p (issued s + j))"
      and L: "?L = (s\<lparr>events := events s @ failed_rounds cfg srv url ?p (issued s) retries j @
                 Http_get url ?p 10 (srv url ?p (issued s + j)) #
                 Log (warning_of (srv url ?p (issued s + j))) # evs,
               issued := Suc (issued s + j)\<rparr>, Inl err)"
      and which: "evs = [] \<and> err = OverflowError_int_too_large \<or>
             evs = [Log (Info_retrying (backoff_factor cfg * 2 ^ (retries + j)))] \<and>
               (err = ValueError_sleep_negative \<or> err = OverflowError_sleep_too_long)"
      by (elim exE conjE) (rule that; assumption)
    from which have evs: "gets evs = []" "fetched evs = []"
      by auto
    let ?rest = "failed_rounds cfg srv url ?p (issued s) retries j @
        Http_get url ?p 10 (srv url ?p (issued s + j)) #
        Log (warning_of (srv url ?p (issued s + j))) # evs"
    have "?L = (s\<lparr>events := events s @ ?rest, issued := issued s + length (gets ?rest)\<rparr>, Inl err)"
      unfolding L using evs by simp
    moreover have "gets ?rest = replicate (length (gets ?rest)) (url, ?p)"
      using evs by (simp add: replicate_append_same)
    moreover have "fetched ?rest = []"
      using quiet bad evs by simp
    ultimately show ?thesis
      by (intro exI [of _ ?rest] exI [of _ "Inl err"]) simp
  qed
qed

lemma loop_frame:
  "heap (fst (make_request_loop cfg srv url ps retries s)) = heap s \<and>
   next_addr (fst (make_request_loop cfg srv url ps retries s)) = next_addr s \<and>
   issued s \<le> issued (fst (make_request_loop cfg srv url ps retries s)) \<and>
   (\<exists>rest. events (fst (make_request_loop cfg srv url ps retries s)) = events s @ rest)"
proof -
  from loop_summary [of cfg srv url ps retries s]
  obtain rest r where "make_request_loop cfg srv url ps retries s =
      (s\<lparr>events := events s @ rest, issued := issued s + length (gets rest)\<rparr>, r)"
    by (elim exE conjE) (rule that)
  then show ?thesis by simp
qed

lemma loop_gets:
  "\<exists>rest. events (fst (make_request_loop cfg srv url ps retries s)) = events s @ rest \<and>
     gets rest = replicate (issued (fst (make_request_loop cfg srv url ps retries s)) - issued s)
       (url, map_option (heap s) ps)"
proof -
  from loop_summary [of cfg srv url ps retries s]
  obtain rest r where "make_request_loop cfg srv url ps retries s =
      (s\<lparr>events := events s @ rest, issued := issued s + length (gets rest)\<rparr>, r)"
    and "gets rest = replicate (length (gets rest)) (url, map_option (heap s) ps)"
    by (elim exE conjE) (rule that)
  then show ?thesis by simp
qed


lemma make_request_all_fail:
  assumes "\<forall>i<nat (max_retries cfg).
      \<not> succeeded (srv url (map_option (heap s) ps) (issued s + i)) \<and> sleep_ok cfg i"
  shows "make_request cfg srv url ps s =
     (s\<lparr>events := events s @
          failed_rounds cfg srv url (map_option (heap s) ps) (issued s) 0 (nat (max_retries cfg)),
        issued := issued s + nat (max_retries cfg)\<rparr>,
      Inl (Failed_to_fetch url (max_retries cfg)))"
proof -
  have "\<forall>i<nat (max_retries cfg). int (0 + i) < max_retries cfg \<and>
      \<not> succeeded (srv url (map_option (heap s) ps) (issued s + i)) \<and> sleep_ok cfg (0 + i)"
    using assms by auto
  then have "make_request_loop cfg srv url ps 0 s =
      make_request_loop cfg srv url ps (0 + nat (max_retries cfg))
        (s\<lparr>events := events s @
             failed_rounds cfg srv url (map_option (heap s) ps) (issued s) 0 (nat (max_retries cfg)),
           issued := issued s + nat (max_retries cfg)\<rparr>)"
    by (rule loop_failed_prefix)
  then show ?thesis
    by (simp add: make_request_def loop_exit)
qed

lemma copy_or_empty_eq:
  "copy_or_empty ps s =
     (s\<lparr>heap := (heap s)(next_addr s := (case ps of None \<Rightarrow> [] | Some a \<Rightarrow> heap s a)),
        next_addr := next_addr s + 1\<rparr>, next_addr s)"
  by (cases ps) (simp_all add: copy_or_empty_def dict_copy_def new_dict_def)



lemma sleep_ok_example: "\<forall>k<nat (max_retries cfg_example). sleep_ok cfg_example k"
proof (intro allI impI)
  fix k
  assume "k < nat (max_retries cfg_example)"
  then have "k = 0 \<or> k = 1"
    by (auto simp: cfg_example_def)
  then show "sleep_ok cfg_example k"
    by (auto simp: sleep_ok_def cfg_example_def)
qed

lemma failed_rounds_two:
  "failed_rounds cfg srv url p first k (Suc (Suc 0)) =
     failed_round cfg url p (srv url p first) k @
     failed_round cfg url p (srv url p (Suc first)) (Suc k)"
  by (simp add: failed_rounds_Suc)




lemma length_failed_round [simp]: "length (failed_round cfg url p a k) = 4"
  by (simp add: failed_round_def)

lemma length_failed_rounds [simp]: "length (failed_rounds cfg srv url p first k j) = 4 * j"
  by (induction j arbitrary: first k) (simp_all add: failed_rounds_Suc)





text \<open>
  C6, as the code has it: one pass through the retry loop. An attempt succeeds exactly
  when a response arrived with status code 200 and a text that is JSON, and then its
  parsed body is returned at once, with no warning and no sleep. Every other outcome, a
  response with another status code, a request exception, or a response with status code
  200 whose text is not JSON, is logged as a warning; the loop then goes on with the next
  value of \<open>retries\<close>, after the sleep, when the sleep is accepted, and is left by the
  exception of line 58 or of \<open>time.sleep\<close> when it is not.
\<close>

theorem attempt_succeeds_iff_200_and_json:
  assumes "int retries < max_retries cfg"
  shows "(succeeded (srv url (map_option (heap s) ps) (issued s)) \<longrightarrow>
           (\<exists>tx body. srv url (map_option (heap s) ps) (issued s) = Response 200 tx (Inr body) \<and>
              make_request_loop cfg srv url ps retries s =
                (s\<lparr>events := events s @
                     [Http_get url (map_option (heap s) ps) 10
                        (srv url (map_option (heap s) ps) (issued s))],
                   issued := Suc (issued s)\<rparr>, Inr body)))
       \<and> (\<not> succeeded (srv url (map_option (heap s) ps) (issued s)) \<and> sleep_ok cfg retries \<longrightarrow>
            make_request_loop cfg srv url ps retries s =
              make_request_loop cfg srv url ps (Suc retries)
                (s\<lparr>events := events s @
                     [Http_get url (map_option (heap s) ps) 10
                        (srv url (map_option (heap s) ps) (issued s)),
                      Log (warning_of (srv url (map_option (heap s) ps) (issued s))),
                      Log (Info_retrying (backoff_factor cfg * 2 ^ retries)),
                      Sleep (backoff_factor cfg * 2 ^ retries)],
                   issued := Suc (issued s)\<rparr>))
       \<and> (\<not> succeeded (srv url (map_option (heap s) ps) (issued s)) \<and> \<not> sleep_ok cfg retries \<longrightarrow>
            (\<exists>evs err. make_request_loop cfg srv url ps retries s =
               (s\<lparr>events := events s @
                    Http_get url (map_option (heap s) ps) 10
                      (srv url (map_option (heap s) ps) (issued s)) #
                    Log (warning_of (srv url (map_option (heap s) ps) (issued s))) # evs,
                  issued := Suc (issued s)\<rparr>, Inl err) \<and>
               (evs = [] \<and> err = OverflowError_int_too_large \<or>
                evs = [Log (Info_retrying (backoff_factor cfg * 2 ^ retries))] \<and>
                  (err = ValueError_sleep_negative \<or> err = OverflowError_sleep_too_long))))
       \<and> (\<forall>status_code tx parsed.
            succeeded (Response status_code tx parsed) =
              (status_code = 200 \<and> (\<exists>body. parsed = Inr body)))
       \<and> (\<forall>e. \<not> succeeded (RequestException e))
       \<and> (\<forall>status_code tx parsed. status_code \<noteq> 200 \<longrightarrow>
            warning_of (Response status_code tx parsed) = Warning_request_failed status_code tx)
       \<and> (\<forall>tx e. warning_of (Response 200 tx (Inl e)) = Warning_request_exception e)
       \<and> (\<forall>e. warning_of (RequestException e) = Warning_request_exception e)"
proof (intro conjI impI allI)
  let ?a = "srv url (map_option (heap s) ps) (issued s)"
  assume "succeeded ?a"
  then obtain tx body where a: "?a = Response 200 tx (Inr body)"
    by (rule succeeded_cases)
  with assms loop_step_ok [of retries cfg srv url s ps tx body]
  show "\<exists>tx body. ?a = Response 200 tx (Inr body) \<and>
      make_request_loop cfg srv url ps retries s =
        (s\<lparr>events := events s @ [Http_get url (map_option (heap s) ps) 10 ?a],
           issued := Suc (issued s)\<rparr>, Inr body)"
    by simp
next
  assume "\<not> succeeded (srv url (map_option (heap s) ps) (issued s)) \<and> sleep_ok cfg retries"
  then have bad: "\<not> succeeded (srv url (map_option (heap s) ps) (issued s))"
    and ok: "sleep_ok cfg retries"
    by simp_all
  from loop_step_failed [of retries cfg srv url s ps, OF assms bad ok]
  show "make_request_loop cfg srv url ps retries s =
      make_request_loop cfg srv url ps (Suc retries)
        (s\<lparr>events := events s @
             [Http_get url (map_option (heap s) ps) 10
                (srv url (map_option (heap s) ps) (issued s)),
              Log (warning_of (srv url (map_option (heap s) ps) (issued s))),
              Log (Info_retrying (backoff_factor cfg * 2 ^ retries)),
              Sleep (backoff_factor cfg * 2 ^ retries)],
           issued := Suc (issued s)\<rparr>)"
    by (simp add: failed_round_def)
next
  assume "\<not> succeeded (srv url (map_option (heap s) ps) (issued s)) \<and> \<not> sleep_ok cfg retries"
  then have bad: "\<not> succeeded (srv url (map_option (heap s) ps) (issued s))"
    and refused: "\<not> sleep_ok cfg retries"
    by simp_all
  from assms bad refused
  show "\<exists>evs err. make_request_loop cfg srv url ps retries s =
       (s\<lparr>events := events s @
            Http_get url (map_option (heap s) ps) 10 (srv url (map_option (heap s) ps) (issued s)) #
            Log (warning_of (srv url (map_option (heap s) ps) (issued s))) # evs,
          issued := Suc (issued s)\<rparr>, Inl err) \<and>
       (evs = [] \<and> err = OverflowError_int_too_large \<or>
        evs = [Log (Info_retrying (backoff_factor cfg * 2 ^ retries))] \<and>
          (err = ValueError_sleep_negative \<or> err = OverflowError_sleep_too_long))"
    by (rule loop_step_aborted)
next
  fix status_code :: int and tx :: string and parsed :: "string + json"
  show "succeeded (Response status_code tx parsed) =
      (status_code = 200 \<and> (\<exists>body. parsed = Inr body))"
    by (cases parsed) simp_all
next
  fix status_code :: int and tx :: string and parsed :: "string + json"
  assume "status_code \<noteq> 200"
  then show "warning_of (Response status_code tx parsed) = Warning_request_failed status_code tx"
    by (cases parsed) simp_all
qed simp_all

text \<open>
  The sentence of C6 does not hold for every response: a server that answers every
  request with status code 200 and a text that is not JSON never makes an attempt succeed.
  \<open>response.json()\<close> raises inside the \<open>try\<close> block, the exception is caught and logged, and
  after \<open>max_retries\<close> such attempts the request is exhausted.
\<close>

theorem status_200_not_json_is_retried:
  "srv_not_json ''u'' None 0 = Response 200 ''not json'' (Inl ''Expecting value'')
   \<and> srv_not_json ''u'' None 1 = Response 200 ''not json'' (Inl ''Expecting value'')
   \<and> make_request cfg_example srv_not_json ''u'' None s_init =
       (s_init\<lparr>events :=
            [Http_get ''u'' None 10 (Response 200 ''not json'' (Inl ''Expecting value'')),
             Log (Warning_request_exception ''Expecting value''),
             Log (Info_retrying (1 / 2)),
             Sleep (1 / 2),
             Http_get ''u'' None 10 (Response 200 ''not json'' (Inl ''Expecting value'')),
             Log (Warning_request_exception ''Expecting value''),
             Log (Info_retrying 1),
             Sleep 1],
          issued := 2\<rparr>,
        Inl (Failed_to_fetch ''u'' 2))"
proof -
  have two: "nat (max_retries cfg_example) = Suc (Suc 0)"
    by (simp add: cfg_example_def)
  have "\<forall>i<nat (max_retries cfg_example).
      \<not> succeeded (srv_not_json ''u'' (map_option (heap s_init) None) (issued s_init + i)) \<and>
      sleep_ok cfg_example i"
    using sleep_ok_example by (simp add: srv_not_json_def)
  then have "make_request cfg_example srv_not_json ''u'' None s_init =
     (s_init\<lparr>events := events s_init @
          failed_rounds cfg_example srv_not_json ''u'' (map_option (heap s_init) None) (issued s_init) 0
            (nat (max_retries cfg_example)),
        issued := issued s_init + nat (max_retries cfg_example)\<rparr>,
      Inl (Failed_to_fetch ''u'' (max_retries cfg_example)))"
    by (rule make_request_all_fail)
  then have "make_request cfg_example srv_not_json ''u'' None s_init =
       (s_init\<lparr>events :=
            [Http_get ''u'' None 10 (Response 200 ''not json'' (Inl ''Expecting value'')),
             Log (Warning_request_exception ''Expecting value''),
             Log (Info_retrying (1 / 2)),
             Sleep (1 / 2),
             Http_get ''u'' None 10 (Response 200 ''not json'' (Inl ''Expecting value'')),
             Log (Warning_request_exception ''Expecting value''),
             Log (Info_retrying 1),
             Sleep 1],
          issued := 2\<rparr>,
        Inl (Failed_to_fetch ''u'' 2))"
    unfolding two failed_rounds_two
    by (simp add: failed_round_def s_init_def cfg_example_def srv_not_json_def)
  then show ?thesis
    by (simp add: srv_not_json_def)
qed

theorem attempt_succeeds_iff_200_and_json_witness:
  "make_request_loop cfg_example (srv_const (JArr [JInt 1])) ''u'' None 0 s_init =
       (s_init\<lparr>events := [Http_get ''u'' None 10 (Response 200 ''ok'' (Inr (JArr [JInt 1])))],
          issued := Suc 0\<rparr>, Inr (JArr [JInt 1]))
   \<and> make_request_loop cfg_example srv_down ''u'' None 0 s_init =
       make_request_loop cfg_example srv_down ''u'' None (Suc 0)
         (s_init\<lparr>events :=
              [Http_get ''u'' None 10 (Response 500 ''down'' (Inl ''Expecting value'')),
               Log (Warning_request_failed 500 ''down''),
               Log (Info_retrying (1 / 2)),
               Sleep (1 / 2)],
            issued := Suc 0\<rparr>)
   \<and> make_request_loop cfg_example srv_not_json ''u'' None 0 s_init =
       make_request_loop cfg_example srv_not_json ''u'' None (Suc 0)
         (s_init\<lparr>events :=
              [Http_get ''u'' None 10 (Response 200 ''not json'' (Inl ''Expecting value'')),
               Log (Warning_request_exception ''Expecting value''),
               Log (Info_retrying (1 / 2)),
               Sleep (1 / 2)],
            issued := Suc 0\<rparr>)
   \<and> (\<exists>evs err. make_request_loop cfg_long srv_not_json ''u'' None 0 s_init =
         (s_init\<lparr>events :=
              Http_get ''u'' None 10 (Response 200 ''not json'' (Inl ''Expecting value'')) #
              Log (Warning_request_exception ''Expecting value'') # evs,
            issued := Suc 0\<rparr>, Inl err) \<and>
         (evs = [] \<and> err = OverflowError_int_too_large \<or>
          evs = [Log (Info_retrying 10000000000)] \<and>
            (err = ValueError_sleep_negative \<or> err = OverflowError_sleep_too_long)))"
proof -
  have h1: "int 0 < max_retries cfg_example"
    by (simp add: cfg_example_def)
  have h2: "int 0 < max_retries cfg_long"
    by (simp add: cfg_long_def)
  have ok: "sleep_ok cfg_example 0"
    by (simp add: sleep_ok_def cfg_example_def)
  have refused: "\<not> sleep_ok cfg_long 0"
    by (simp add: sleep_ok_def cfg_long_def)
  have good: "succeeded (srv_const (JArr [JInt 1]) ''u'' (map_option (heap s_init) None) (issued s_init))"
    by (simp add: srv_const_def)
  have bad: "\<not> succeeded (srv_down ''u'' (map_option (heap s_init) None) (issued s_init))"
    by (simp add: srv_down_def)
  have bad': "\<not> succeeded (srv_not_json ''u'' (map_option (heap s_init) None) (issued s_init))"
    by (simp add: srv_not_json_def)
  have a: "make_request_loop cfg_example (srv_const (JArr [JInt 1])) ''u'' None 0 s_init =
       (s_init\<lparr>events := [Http_get ''u'' None 10 (Response 200 ''ok'' (Inr (JArr [JInt 1])))],
          issued := Suc 0\<rparr>, Inr (JArr [JInt 1]))"
    using attempt_succeeds_iff_200_and_json [of 0 cfg_example "srv_const (JArr [JInt 1])" "''u''"
        s_init None, OF h1] good
    by (simp add: srv_const_def s_init_def)
  have b: "make_request_loop cfg_example srv_down ''u'' None 0 s_init =
       make_request_loop cfg_example srv_down ''u'' None (Suc 0)
         (s_init\<lparr>events :=
              [Http_get ''u'' None 10 (Response 500 ''down'' (Inl ''Expecting value'')),
               Log (Warning_request_failed 500 ''down''),
               Log (Info_retrying (1 / 2)),
               Sleep (1 / 2)],
            issued := Suc 0\<rparr>)"
    using attempt_succeeds_iff_200_and_json [of 0 cfg_example srv_down "''u''" s_init None, OF h1]
      bad ok
    by (simp add: srv_down_def s_init_def cfg_example_def)
  have c: "make_request_loop cfg_example srv_not_json ''u'' None 0 s_init =
       make_request_loop cfg_example srv_not_json ''u'' None (Suc 0)
         (s_init\<lparr>events :=
              [Http_get ''u'' None 10 (Response 200 ''not json'' (Inl ''Expecting value'')),
               Log (Warning_request_exception ''Expecting value''),
               Log (Info_retrying (1 / 2)),
               Sleep (1 / 2)],
            issued := Suc 0\<rparr>)"
    using attempt_succeeds_iff_200_and_json [of 0 cfg_example srv_not_json "''u''" s_init None, OF h1]
      bad' ok
    by (simp add: srv_not_json_def s_init_def cfg_example_def)
  have d: "\<exists>evs err. make_request_loop cfg_long srv_not_json ''u'' None 0 s_init =
         (s_init\<lparr>events :=
              Http_get ''u'' None 10 (Response 200 ''not json'' (Inl ''Expecting value'')) #
              Log (Warning_request_exception ''Expecting value'') # evs,
            issued := Suc 0\<rparr>, Inl err) \<and>
         (evs = [] \<and> err = OverflowError_int_too_large \<or>
          evs = [Log (Info_retrying 10000000000)] \<and>
            (err = ValueError_sleep_negative \<or> err = OverflowError_sleep_too_long))"
    using attempt_succeeds_iff_200_and_json [of 0 cfg_long srv_not_json "''u''" s_init None, OF h2]
      bad' refused
    by (simp add: srv_not_json_def s_init_def cfg_long_def)
  from a b c d show ?thesis by (intro conjI)
qed

subsection \<open>Pagination\<close>

lemma make_request_ok:
  assumes "0 < max_retries cfg"
    and "srv url (map_option (heap s) ps) (issued s) = Response 200 tx (Inr body)"
  shows "make_request cfg srv url ps s =
     (s\<lparr>events := events s @ [Http_get url (map_option (heap s) ps) 10 (Response 200 tx (Inr body))],
        issued := Suc (issued s)\<rparr>, Inr body)"
  using assms by (simp add: make_request_def loop_step_ok)

text \<open>The parameters of the request for a page: the caller's parameters, then the page
  number under \<open>page_param\<close>, then \<open>per_page\<close> under \<open>"results"\<close>.\<close>

lemma page_request_eq:
  "page_request cfg srv args page s =
     make_request cfg srv (base_url cfg @ endpoint args) (Some (next_addr s))
       (s\<lparr>heap := (heap s)(next_addr s :=
              AList.update ''results'' (JInt (per_page args))
                (AList.update (page_param args) (JInt page)
                  (case params args of None \<Rightarrow> [] | Some a \<Rightarrow> heap s a))),
          next_addr := next_addr s + 1,
          events := events s @ [Log (Info_fetching_page page (endpoint args))]\<rparr>)"
  by (simp add: page_request_def copy_or_empty_eq dict_set_def logging_def emit_def Let_def)

lemma page_request_max_pages [simp]:
  "page_request cfg srv (args\<lparr>max_pages := mp\<rparr>) page s = page_request cfg srv args page s"
  by (simp add: page_request_def)


text \<open>
  C2: what the loop does with a page once its request has returned, for a page whose
  items are a list. The three tests are made in this order: an empty page stops the loop
  and leaves \<open>results\<close> as it was; otherwise the items are appended, and the loop stops
  when the page limit is reached, or else when the page is shorter than \<open>per_page\<close>;
  otherwise it goes on with \<open>page + 1\<close>. The limit is reached when \<open>max_pages\<close> is a
  number other than zero and \<open>page\<close> is at least that number.
\<close>

theorem pagination_stop_order:
  assumes "page_request cfg srv args page s = (s4, Inr data)"
    and "unwrap data = JArr items"
  shows "fetch_paginated_loop (Suc fuel) cfg srv args results page s =
     (if items = [] then Some (s4, Inr results)
      else if limit_reached (max_pages args) page then Some (s4, Inr (results @ items))
      else if int (length items) < per_page args then Some (s4, Inr (results @ items))
      else fetch_paginated_loop fuel cfg srv args (results @ items) (page + 1) s4)
   \<and> limit_reached (max_pages args) page = (\<exists>m. max_pages args = Some m \<and> m \<noteq> 0 \<and> m \<le> page)"
  using assms by (auto simp: limit_reached_def Let_def split: option.splits)


theorem pagination_stop_order_witness:
  "page_request cfg_example (srv_const (JArr [])) args_example 1 s_init =
     (s_init\<lparr>heap := (heap s_init)(0 := [(''page'', JInt 1), (''results'', JInt 2)]),
        next_addr := 1,
        events := [Log (Info_fetching_page 1 ''/items''),
          Http_get ''https://host/items'' (Some [(''page'', JInt 1), (''results'', JInt 2)]) 10
            (Response 200 ''ok'' (Inr (JArr [])))],
        issued := 1\<rparr>, Inr (JArr []))
   \<and> unwrap (JArr []) = JArr []
   \<and> fetch_paginated_loop (Suc 0) cfg_example (srv_const (JArr [])) args_example [] 1 s_init =
       Some (s_init\<lparr>heap := (heap s_init)(0 := [(''page'', JInt 1), (''results'', JInt 2)]),
          next_addr := 1,
          events := [Log (Info_fetching_page 1 ''/items''),
            Http_get ''https://host/items'' (Some [(''page'', JInt 1), (''results'', JInt 2)]) 10
              (Response 200 ''ok'' (Inr (JArr [])))],
          issued := 1\<rparr>, Inr [])"
proof -
  have mr: "0 < max_retries cfg_example"
    by (simp add: cfg_example_def)
  have req: "page_request cfg_example (srv_const (JArr [])) args_example 1 s_init =
     (s_init\<lparr>heap := (heap s_init)(0 := [(''page'', JInt 1), (''results'', JInt 2)]),
        next_addr := 1,
        events := [Log (Info_fetching_page 1 ''/items''),
          Http_get ''https://host/items'' (Some [(''page'', JInt 1), (''results'', JInt 2)]) 10
            (Response 200 ''ok'' (Inr (JArr [])))],
        issued := 1\<rparr>, Inr (JArr []))"
    unfolding page_request_eq
    by (subst make_request_ok [where tx = "''ok''" and body = "JArr []"])
       (simp_all add: mr srv_const_def, simp_all add: cfg_example_def args_example_def s_init_def)
  have un: "unwrap (JArr []) = JArr []"
    by (simp add: unwrap_def)
  from pagination_stop_order [OF req un, of 0 "[]"] req un show ?thesis
    by simp
qed

subsection \<open>The caller's parameters\<close>

lemma make_request_frame:
  "heap (fst (make_request cfg srv url ps s)) = heap s \<and>
   next_addr (fst (make_request cfg srv url ps s)) = next_addr s \<and>
   issued s \<le> issued (fst (make_request cfg srv url ps s)) \<and>
   (\<exists>rest. events (fst (make_request cfg srv url ps s)) = events s @ rest)"
  unfolding make_request_def by (rule loop_frame)

lemma page_request_frame:
  assumes "page_request cfg srv args page s = (s4, r)"
  shows "next_addr s4 = Suc (next_addr s)" and "a < next_addr s \<Longrightarrow> heap s4 a = heap s a"
proof -
  let ?s3 = "s\<lparr>heap := (heap s)(next_addr s :=
              AList.update ''results'' (JInt (per_page args))
                (AList.update (page_param args) (JInt page)
                  (case params args of None \<Rightarrow> [] | Some a \<Rightarrow> heap s a))),
          next_addr := next_addr s + 1,
          events := events s @ [Log (Info_fetching_page page (endpoint args))]\<rparr>"
  have s4: "s4 = fst (make_request cfg srv (base_url cfg @ endpoint args) (Some (next_addr s)) ?s3)"
    using assms by (simp add: page_request_eq)
  from make_request_frame [of cfg srv "base_url cfg @ endpoint args" "Some (next_addr s)" ?s3]
  have h: "heap s4 = heap ?s3" and n: "next_addr s4 = next_addr ?s3"
    unfolding s4 by simp_all
  from n show "next_addr s4 = Suc (next_addr s)" by simp
  assume "a < next_addr s"
  with h show "heap s4 a = heap s a" by simp
qed

lemma fetch_paginated_loop_frame:
  assumes "fetch_paginated_loop fuel cfg srv args results page s = Some (s', r)"
  shows "next_addr s \<le> next_addr s' \<and> (\<forall>a<next_addr s. heap s' a = heap s a)"
  using assms
proof (induction fuel arbitrary: results page s)
  case 0
  then show ?case by simp
next
  case (Suc fuel)
  obtain s4 r4 where pr: "page_request cfg srv args page s = (s4, r4)"
    by (cases "page_request cfg srv args page s")
  note f = page_request_frame [OF pr]
  show ?case
  proof (cases "\<exists>xs. r4 = Inr (xs) \<and> truthy (unwrap xs) \<and> (\<exists>ys. iterate (unwrap xs) = Inr ys) \<and>
      \<not> limit_reached (max_pages args) page \<and> \<not> len (unwrap xs) < per_page args")
    case True
    then obtain data ys where d: "r4 = Inr data" "truthy (unwrap data)" "iterate (unwrap data) = Inr ys"
        "\<not> limit_reached (max_pages args) page" "\<not> len (unwrap data) < per_page args"
      by blast
    with Suc.prems pr have "fetch_paginated_loop fuel cfg srv args (results @ ys) (page + 1) s4 = Some (s', r)"
      by (simp add: Let_def)
    from Suc.IH [OF this] f show ?thesis by auto
  next
    case False
    with Suc.prems pr have "s' = s4"
      by (auto simp: Let_def split: sum.splits if_splits)
    with f show ?thesis by simp
  qed
qed

lemma fetch_incremental_frame:
  "next_addr (fst (fetch_incremental cfg srv ep since ps s)) = Suc (next_addr s)"
  "a < next_addr s \<Longrightarrow> heap (fst (fetch_incremental cfg srv ep since ps s)) a = heap s a"
proof -
  let ?s1 = "s\<lparr>heap := (heap s)(next_addr s := (case ps of None \<Rightarrow> [] | Some a \<Rightarrow> heap s a)),
        next_addr := next_addr s + 1\<rparr>"
  let ?s3 = "logging (Info_fetching_incremental ep since) (set_since (next_addr s) since ?s1)"
  have eq: "fst (fetch_incremental cfg srv ep since ps s) =
      fst (make_request cfg srv (base_url cfg @ ep) (Some (next_addr s)) ?s3)"
    by (simp add: fetch_incremental_def copy_or_empty_eq Let_def split: prod.splits sum.splits)
  have n3: "next_addr ?s3 = Suc (next_addr s)"
    by (simp add: logging_def emit_def set_since_def dict_set_def split: option.splits)
  have h3: "heap ?s3 a = heap s a" if "a < next_addr s" for a
    using that by (simp add: logging_def emit_def set_since_def dict_set_def split: option.splits)
  from make_request_frame [of cfg srv "base_url cfg @ ep" "Some (next_addr s)" ?s3]
  have h: "heap (fst (fetch_incremental cfg srv ep since ps s)) = heap ?s3"
    and n: "next_addr (fst (fetch_incremental cfg srv ep since ps s)) = next_addr ?s3"
    unfolding eq by simp_all
  from n n3 show "next_addr (fst (fetch_incremental cfg srv ep since ps s)) = Suc (next_addr s)"
    by simp
  assume "a < next_addr s"
  with h h3 show "heap (fst (fetch_incremental cfg srv ep since ps s)) a = heap s a"
    by simp
qed

lemma page_request_ok:
  assumes "0 < max_retries cfg"
    and "\<forall>p. srv (base_url cfg @ endpoint args) p (issued s) = Response 200 tx (Inr body)"
  shows "page_request cfg srv args page s =
     (s\<lparr>heap := (heap s)(next_addr s :=
            AList.update ''results'' (JInt (per_page args))
              (AList.update (page_param args) (JInt page)
                (case params args of None \<Rightarrow> [] | Some a \<Rightarrow> heap s a))),
        next_addr := next_addr s + 1,
        events := events s @
          [Log (Info_fetching_page page (endpoint args)),
           Http_get (base_url cfg @ endpoint args)
             (Some (AList.update ''results'' (JInt (per_page args))
               (AList.update (page_param args) (JInt page)
                 (case params args of None \<Rightarrow> [] | Some a \<Rightarrow> heap s a)))) 10
             (Response 200 tx (Inr body))],
        issued := Suc (issued s)\<rparr>, Inr body)"
  unfolding page_request_eq
  by (subst make_request_ok [where tx = tx and body = body]) (simp_all add: assms)

text \<open>
  C7: a dictionary that exists when a fetch is called is the same after it, whoever holds
  it and whatever the fetch returns or raises; in particular the one passed as \<open>params\<close>.
  The fetch writes the page number, the page size and the cursor into a dictionary it
  has just created. So it is after a paginated fetch, after a second one, and after an
  incremental fetch that follows them.
\<close>

theorem caller_params_unchanged:
  assumes "a < next_addr s"
    and "fetch_paginated fuel1 cfg srv args1 s = Some (s1, r1)"
    and "fetch_paginated fuel2 cfg srv args2 s1 = Some (s2, r2)"
  shows "heap s1 a = heap s a
       \<and> heap s2 a = heap s a
       \<and> heap (fst (fetch_incremental cfg srv ep since ps s2)) a = heap s a
       \<and> heap (fst (fetch_incremental cfg srv ep since ps s)) a = heap s a"
proof -
  from fetch_paginated_loop_frame [OF assms(2) [unfolded fetch_paginated_def]] assms(1)
  have 1: "heap s1 a = heap s a" and n1: "a < next_addr s1"
    by auto
  from fetch_paginated_loop_frame [OF assms(3) [unfolded fetch_paginated_def]] n1
  have 2: "heap s2 a = heap s1 a" and n2: "a < next_addr s2"
    by auto
  from fetch_incremental_frame(2) [OF n2] have 3:
    "heap (fst (fetch_incremental cfg srv ep since ps s2)) a = heap s2 a" .
  from fetch_incremental_frame(2) [OF assms(1)] have 4:
    "heap (fst (fetch_incremental cfg srv ep since ps s)) a = heap s a" .
  from 1 2 3 4 show ?thesis by simp
qed


theorem caller_params_unchanged_witness:
  "0 < next_addr s_caller
   \<and> (\<exists>s1 s2. fetch_paginated (Suc 0) cfg_example (srv_const (JArr [])) args_caller s_caller =
           Some (s1, Inr [])
         \<and> fetch_paginated (Suc 0) cfg_example (srv_const (JArr [])) args_caller s1 =
           Some (s2, Inr [])
         \<and> gets (events s1) =
           [(''https://host/items'',
             Some [(''date'', JStr ''2025-07''), (''page'', JInt 1), (''results'', JInt 2)])]
         \<and> heap s1 0 = [(''date'', JStr ''2025-07'')]
         \<and> heap s2 0 = [(''date'', JStr ''2025-07'')]
         \<and> heap (fst (fetch_incremental cfg_example (srv_const (JArr [])) ''/items''
               (Some ''2024-01-01'') (Some 0) s2)) 0 =
           [(''date'', JStr ''2025-07'')])"
proof -
  have mr: "0 < max_retries cfg_example"
    by (simp add: cfg_example_def)
  have srv: "\<forall>p. srv_const (JArr []) (base_url cfg_example @ endpoint args_caller) p n =
      Response 200 ''ok'' (Inr (JArr []))" for n
    by (simp add: srv_const_def)
  have alloc: "0 < next_addr s_caller"
    by (simp add: s_caller_def)
  obtain s1 where p1: "page_request cfg_example (srv_const (JArr [])) args_caller 1 s_caller =
      (s1, Inr (JArr []))"
    and g1: "gets (events s1) =
      [(''https://host/items'',
        Some [(''date'', JStr ''2025-07''), (''page'', JInt 1), (''results'', JInt 2)])]"
    using page_request_ok [where cfg = cfg_example and srv = "srv_const (JArr [])"
        and args = args_caller and s = s_caller and page = 1 and tx = "''ok''" and body = "JArr []"]
      mr srv
    by (simp add: s_caller_def args_caller_def cfg_example_def)
  obtain s2 where p2: "page_request cfg_example (srv_const (JArr [])) args_caller 1 s1 =
      (s2, Inr (JArr []))"
    using page_request_ok [where cfg = cfg_example and srv = "srv_const (JArr [])"
        and args = args_caller and s = s1 and page = 1 and tx = "''ok''" and body = "JArr []"]
      mr srv
    by simp
  have f1: "fetch_paginated (Suc 0) cfg_example (srv_const (JArr [])) args_caller s_caller =
      Some (s1, Inr [])"
    using p1 by (simp add: fetch_paginated_def unwrap_def)
  have f2: "fetch_paginated (Suc 0) cfg_example (srv_const (JArr [])) args_caller s1 =
      Some (s2, Inr [])"
    using p2 by (simp add: fetch_paginated_def unwrap_def)
  from caller_params_unchanged [OF alloc f1 f2, of "''/items''" "Some ''2024-01-01''" "Some 0"]
  have "heap s1 0 = [(''date'', JStr ''2025-07'')]"
    and "heap s2 0 = [(''date'', JStr ''2025-07'')]"
    and "heap (fst (fetch_incremental cfg_example (srv_const (JArr [])) ''/items''
               (Some ''2024-01-01'') (Some 0) s2)) 0 =
      [(''date'', JStr ''2025-07'')]"
    by (simp_all add: s_caller_def)
  with alloc f1 f2 g1 show ?thesis by blast
qed

subsection \<open>The incremental fetch and the envelope\<close>

lemma fetch_incremental_eq:
  "fetch_incremental cfg srv ep since ps s =
     (case make_request cfg srv (base_url cfg @ ep) (Some (next_addr s))
             (s\<lparr>heap := (heap s)(next_addr s := incremental_params since (contents ps s)),
                next_addr := next_addr s + 1,
                events := events s @ [Log (Info_fetching_incremental ep since)]\<rparr>) of
        (s4, Inl err) \<Rightarrow> (s4, Inl err)
      | (s4, Inr data) \<Rightarrow> (s4, Inr (unwrap data)))"
  by (cases since)
     (simp_all add: fetch_incremental_def copy_or_empty_eq set_since_def dict_set_def logging_def
        emit_def incremental_params_def contents_def Let_def)


lemma fetch_incremental_trace:
  "\<exists>rest. events (fst (fetch_incremental cfg srv ep since ps s)) =
       events s @ Log (Info_fetching_incremental ep since) # rest \<and>
     gets rest = replicate (issued (fst (fetch_incremental cfg srv ep since ps s)) - issued s)
       (base_url cfg @ ep, Some (incremental_params since (contents ps s)))"
proof -
  let ?s3 = "s\<lparr>heap := (heap s)(next_addr s := incremental_params since (contents ps s)),
                next_addr := next_addr s + 1,
                events := events s @ [Log (Info_fetching_incremental ep since)]\<rparr>"
  have eq: "fst (fetch_incremental cfg srv ep since ps s) =
      fst (make_request_loop cfg srv (base_url cfg @ ep) (Some (next_addr s)) 0 ?s3)"
    by (simp add: fetch_incremental_eq make_request_def split: prod.splits sum.splits)
  from loop_gets [of cfg srv "base_url cfg @ ep" "Some (next_addr s)" 0 ?s3]
  show ?thesis unfolding eq by simp
qed

lemma fetch_incremental_ok:
  assumes "0 < max_retries cfg"
    and "srv (base_url cfg @ ep) (Some (incremental_params since (contents ps s))) (issued s) =
      Response 200 tx (Inr body)"
  shows "fetch_incremental cfg srv ep since ps s =
     (s\<lparr>heap := (heap s)(next_addr s := incremental_params since (contents ps s)),
        next_addr := next_addr s + 1,
        events := events s @
          [Log (Info_fetching_incremental ep since),
           Http_get (base_url cfg @ ep) (Some (incremental_params since (contents ps s))) 10
             (Response 200 tx (Inr body))],
        issued := Suc (issued s)\<rparr>, Inr (unwrap body))"
  unfolding fetch_incremental_eq
  by (subst make_request_ok [where tx = tx and body = body]) (simp_all add: assms)

text \<open>
  C9, as the code has it: \<open>fetch_incremental\<close> calls \<open>_make_request\<close> once, on the
  endpoint's URL and a fresh dictionary, and returns its result unwrapped. Every request
  in its trace is that one request, sent again only by the retry loop, and sent once when
  the first attempt succeeds. The dictionary is a copy of the caller's parameters in which
  a cursor that is a non-empty string has been stored under \<open>"since"\<close>; with no cursor, or
  an empty one, it is the copy alone.
\<close>

theorem fetch_incremental_one_request:
  "fetch_incremental cfg srv ep since ps s =
     (case make_request cfg srv (base_url cfg @ ep) (Some (next_addr s))
             (s\<lparr>heap := (heap s)(next_addr s := incremental_params since (contents ps s)),
                next_addr := next_addr s + 1,
                events := events s @ [Log (Info_fetching_incremental ep since)]\<rparr>) of
        (s4, Inl err) \<Rightarrow> (s4, Inl err)
      | (s4, Inr data) \<Rightarrow> (s4, Inr (unwrap data)))
   \<and> (\<exists>rest. events (fst (fetch_incremental cfg srv ep since ps s)) =
          events s @ Log (Info_fetching_incremental ep since) # rest \<and>
        gets rest = replicate (issued (fst (fetch_incremental cfg srv ep since ps s)) - issued s)
          (base_url cfg @ ep, Some (incremental_params since (contents ps s))))
   \<and> (0 < max_retries cfg \<and>
        succeeded (srv (base_url cfg @ ep) (Some (incremental_params since (contents ps s))) (issued s)) \<longrightarrow>
        issued (fst (fetch_incremental cfg srv ep since ps s)) = Suc (issued s))
   \<and> (\<forall>c. since = Some c \<and> c \<noteq> [] \<longrightarrow>
        map_of (incremental_params since (contents ps s)) ''since'' = Some (JStr c))
   \<and> (since = None \<or> since = Some [] \<longrightarrow>
        incremental_params since (contents ps s) = contents ps s)"
proof (intro conjI impI allI)
  show "fetch_incremental cfg srv ep since ps s =
     (case make_request cfg srv (base_url cfg @ ep) (Some (next_addr s))
             (s\<lparr>heap := (heap s)(next_addr s := incremental_params since (contents ps s)),
                next_addr := next_addr s + 1,
                events := events s @ [Log (Info_fetching_incremental ep since)]\<rparr>) of
        (s4, Inl err) \<Rightarrow> (s4, Inl err)
      | (s4, Inr data) \<Rightarrow> (s4, Inr (unwrap data)))"
    by (rule fetch_incremental_eq)
next
  show "\<exists>rest. events (fst (fetch_incremental cfg srv ep since ps s)) =
          events s @ Log (Info_fetching_incremental ep since) # rest \<and>
        gets rest = replicate (issued (fst (fetch_incremental cfg srv ep since ps s)) - issued s)
          (base_url cfg @ ep, Some (incremental_params since (contents ps s)))"
    by (rule fetch_incremental_trace)
next
  let ?a = "srv (base_url cfg @ ep) (Some (incremental_params since (contents ps s))) (issued s)"
  assume h: "0 < max_retries cfg \<and> succeeded ?a"
  then have "succeeded ?a" by simp
  then obtain tx body where "?a = Response 200 tx (Inr body)"
    by (rule succeeded_cases)
  with h show "issued (fst (fetch_incremental cfg srv ep since ps s)) = Suc (issued s)"
    by (simp add: fetch_incremental_ok)
next
  fix c
  assume "since = Some c \<and> c \<noteq> []"
  then show "map_of (incremental_params since (contents ps s)) ''since'' = Some (JStr c)"
    by (simp add: incremental_params_def update_conv')
next
  assume "since = None \<or> since = Some []"
  then show "incremental_params since (contents ps s) = contents ps s"
    by (auto simp: incremental_params_def)
qed

text \<open>
  The sentence of C9 about an omitted cursor does not hold for every caller: when the
  caller's own parameters hold a \<open>"since"\<close> key and no cursor is passed, the request
  carries that key.
\<close>

theorem since_key_present_without_cursor:
  "gets (events (fst (fetch_incremental cfg_example (srv_const (JArr [])) ''/items'' None (Some 0) s_since))) =
     [(''https://host/items'', Some [(''since'', JStr ''2020-01-01'')])]"
proof -
  have "fetch_incremental cfg_example (srv_const (JArr [])) ''/items'' None (Some 0) s_since =
     (s_since\<lparr>heap := (heap s_since)(next_addr s_since := incremental_params None (contents (Some 0) s_since)),
        next_addr := next_addr s_since + 1,
        events := events s_since @
          [Log (Info_fetching_incremental ''/items'' None),
           Http_get (base_url cfg_example @ ''/items'')
             (Some (incremental_params None (contents (Some 0) s_since))) 10
             (Response 200 ''ok'' (Inr (JArr [])))],
        issued := Suc (issued s_since)\<rparr>, Inr (unwrap (JArr [])))"
    by (rule fetch_incremental_ok) (simp_all add: cfg_example_def srv_const_def)
  then show ?thesis
    by (simp add: incremental_params_def contents_def s_since_def cfg_example_def)
qed


theorem fetch_incremental_one_request_witness:
  "gets (events (fst (fetch_incremental cfg_example (srv_const (JArr [])) ''/items''
       (Some ''2024-01-01'') None s_init))) =
     [(''https://host/items'', Some (incremental_params (Some ''2024-01-01'') (contents None s_init)))]
   \<and> map_of (incremental_params (Some ''2024-01-01'') (contents None s_init)) ''since'' =
       Some (JStr ''2024-01-01'')
   \<and> gets (events (fst (fetch_incremental cfg_example (srv_const (JArr [])) ''/items'' None None s_init))) =
       [(''https://host/items'', Some [])]"
proof -
  let ?srv = "srv_const (JArr [])"
  have ok: "0 < max_retries cfg_example \<and> succeeded (?srv u p n)" for u p n
    by (simp add: cfg_example_def srv_const_def)
  have one: "gets (events (fst (fetch_incremental cfg_example ?srv ''/items'' since None s_init))) =
      [(''https://host/items'', Some (incremental_params since (contents None s_init)))]" for since
  proof -
    from fetch_incremental_one_request [of cfg_example ?srv "''/items''" since None s_init] ok
    obtain rest where ev: "events (fst (fetch_incremental cfg_example ?srv ''/items'' since None s_init)) =
          events s_init @ Log (Info_fetching_incremental ''/items'' since) # rest"
      and g: "gets rest = replicate
          (issued (fst (fetch_incremental cfg_example ?srv ''/items'' since None s_init)) - issued s_init)
          (base_url cfg_example @ ''/items'', Some (incremental_params since (contents None s_init)))"
      and i: "issued (fst (fetch_incremental cfg_example ?srv ''/items'' since None s_init)) =
          Suc (issued s_init)"
      by blast
    show ?thesis
      unfolding ev using g i by (simp add: s_init_def cfg_example_def)
  qed
  have a: "map_of (incremental_params (Some ''2024-01-01'') (contents None s_init)) ''since'' =
      Some (JStr ''2024-01-01'')"
    using fetch_incremental_one_request [of cfg_example ?srv "''/items''" "Some ''2024-01-01''" None s_init]
    by simp
  have b: "incremental_params None (contents None s_init) = contents None s_init"
    using fetch_incremental_one_request [of cfg_example ?srv "''/items''" None None s_init]
    by simp
  have c: "contents None s_init = []"
    by (simp add: contents_def)
  from one [of "Some ''2024-01-01''"] one [of None] a b c show ?thesis
    by simp
qed


lemma unwrap_array [simp]: "unwrap (JArr xs) = JArr xs"
  by (simp add: unwrap_def)




subsection \<open>The result of a paginated fetch\<close>




















end
